theory Spec2Isabelle
  imports Complex_Main
begin

section \<open>Python floating-point values\<close>

text \<open>
  The program computes with Python and NumPy double-precision numbers.  A value is
  modelled as a finite real or one of the three IEEE special values.  Arithmetic on finite
  values is exact: rounding, overflow and the sign of zero are not modelled.  What is
  modelled is where a special value appears and where Python raises instead:
  NumPy division never raises (\<open>0/0\<close> is NaN, \<open>x/0\<close> is an infinity), division of two
  Python integers raises \<open>ZeroDivisionError\<close>, and \<open>math.sqrt\<close>, \<open>math.acos\<close> and
  \<open>math.cos\<close> raise \<open>ValueError\<close> outside their domain but pass NaN through.
\<close>

datatype pyfloat = Fin real | PInf | NInf | NaN

datatype py_error =
    ValueError string
  | ZeroDivisionError string
  | RuntimeError string

fun is_fin :: "pyfloat \<Rightarrow> bool" where
  "is_fin (Fin x) = True"
| "is_fin x = False"

fun inf_of_sign :: "real \<Rightarrow> pyfloat" where
  "inf_of_sign s = (if s = 0 then NaN else if 0 < s then PInf else NInf)"

fun sign_of :: "pyfloat \<Rightarrow> real" where
  "sign_of (Fin x) = sgn x"
| "sign_of PInf = 1"
| "sign_of NInf = - 1"
| "sign_of NaN = 0"

fun fneg :: "pyfloat \<Rightarrow> pyfloat" where
  "fneg (Fin x) = Fin (- x)"
| "fneg PInf = NInf"
| "fneg NInf = PInf"
| "fneg NaN = NaN"

fun fadd :: "pyfloat \<Rightarrow> pyfloat \<Rightarrow> pyfloat" where
  "fadd (Fin x) (Fin y) = Fin (x + y)"
| "fadd NaN y = NaN"
| "fadd x NaN = NaN"
| "fadd PInf NInf = NaN"
| "fadd NInf PInf = NaN"
| "fadd PInf y = PInf"
| "fadd x PInf = PInf"
| "fadd NInf y = NInf"
| "fadd x NInf = NInf"

fun fmul :: "pyfloat \<Rightarrow> pyfloat \<Rightarrow> pyfloat" where
  "fmul (Fin x) (Fin y) = Fin (x * y)"
| "fmul NaN y = NaN"
| "fmul x NaN = NaN"
| "fmul x y = inf_of_sign (sign_of x * sign_of y)"

text \<open>NumPy's true division: a zero divisor gives NaN or an infinity, never an exception.\<close>

fun fdiv :: "pyfloat \<Rightarrow> pyfloat \<Rightarrow> pyfloat" where
  "fdiv (Fin x) (Fin y) = (if y = 0 then inf_of_sign (sgn x) else Fin (x / y))"
| "fdiv NaN y = NaN"
| "fdiv x NaN = NaN"
| "fdiv (Fin x) y = Fin 0"
| "fdiv x (Fin y) = inf_of_sign (sign_of x * (if 0 \<le> y then 1 else - 1))"
| "fdiv x y = NaN"

instantiation pyfloat :: "{plus, minus, uminus, times, inverse}"
begin

definition plus_pyfloat :: "pyfloat \<Rightarrow> pyfloat \<Rightarrow> pyfloat" where
  "plus_pyfloat a b = fadd a b"

definition uminus_pyfloat :: "pyfloat \<Rightarrow> pyfloat" where
  "uminus_pyfloat a = fneg a"

definition minus_pyfloat :: "pyfloat \<Rightarrow> pyfloat \<Rightarrow> pyfloat" where
  "minus_pyfloat a b = fadd a (fneg b)"

definition times_pyfloat :: "pyfloat \<Rightarrow> pyfloat \<Rightarrow> pyfloat" where
  "times_pyfloat a b = fmul a b"

definition divide_pyfloat :: "pyfloat \<Rightarrow> pyfloat \<Rightarrow> pyfloat" where
  "divide_pyfloat a b = fdiv a b"

definition inverse_pyfloat :: "pyfloat \<Rightarrow> pyfloat" where
  "inverse_pyfloat a = fdiv (Fin 1) a"

instance ..

end

text \<open>\<open>pow(x, n)\<close> for the exponents 2 and 3 of the source, as repeated multiplication.\<close>

fun py_pow :: "pyfloat \<Rightarrow> nat \<Rightarrow> pyfloat" where
  "py_pow x 0 = Fin 1"
| "py_pow x (Suc n) = x * py_pow x n"

text \<open>Comparison \<open>a < b\<close> of two floats: false as soon as one side is NaN.\<close>

fun flt :: "pyfloat \<Rightarrow> pyfloat \<Rightarrow> bool" where
  "flt (Fin x) (Fin y) = (x < y)"
| "flt NaN y = False"
| "flt x NaN = False"
| "flt PInf y = False"
| "flt x PInf = True"
| "flt NInf NInf = False"
| "flt NInf y = True"
| "flt x NInf = False"

text \<open>Python's builtin \<open>min(a, b)\<close>: the second argument only when it is smaller.\<close>

definition py_min :: "pyfloat \<Rightarrow> pyfloat \<Rightarrow> pyfloat" where
  "py_min a b = (if flt b a then b else a)"

fun np_sign :: "pyfloat \<Rightarrow> pyfloat" where
  "np_sign (Fin x) = Fin (sgn x)"
| "np_sign PInf = Fin 1"
| "np_sign NInf = Fin (- 1)"
| "np_sign NaN = NaN"

definition math_domain_error :: py_error where
  "math_domain_error = ValueError ''math domain error''"

fun math_sqrt :: "pyfloat \<Rightarrow> py_error + pyfloat" where
  "math_sqrt (Fin x) = (if x < 0 then Inl math_domain_error else Inr (Fin (sqrt x)))"
| "math_sqrt PInf = Inr PInf"
| "math_sqrt NInf = Inl math_domain_error"
| "math_sqrt NaN = Inr NaN"

fun math_acos :: "pyfloat \<Rightarrow> py_error + pyfloat" where
  "math_acos (Fin x) =
     (if x < - 1 \<or> 1 < x then Inl math_domain_error else Inr (Fin (arccos x)))"
| "math_acos NaN = Inr NaN"
| "math_acos x = Inl math_domain_error"

fun math_cos :: "pyfloat \<Rightarrow> py_error + pyfloat" where
  "math_cos (Fin x) = Inr (Fin (cos x))"
| "math_cos NaN = Inr NaN"
| "math_cos x = Inl math_domain_error"

text \<open>True division \<open>n2 / n1\<close> of two Python integers.\<close>

definition int_truediv :: "nat \<Rightarrow> nat \<Rightarrow> py_error + pyfloat" where
  "int_truediv m n =
     (if n = 0 then Inl (ZeroDivisionError ''division by zero'')
      else Inr (Fin (real m / real n)))"

text \<open>\<open>np.mean\<close> of a list of integers: NaN (with a warning, no exception) on the empty list.\<close>

definition np_mean :: "int list \<Rightarrow> pyfloat" where
  "np_mean xs = (if xs = [] then NaN else Fin (real_of_int (sum_list xs) / real (length xs)))"

text \<open>Sequencing of computations that may raise: the first exception ends the run.\<close>

definition py_bind :: "py_error + 'a \<Rightarrow> ('a \<Rightarrow> py_error + 'b) \<Rightarrow> py_error + 'b" where
  "py_bind m f = (case m of Inl e \<Rightarrow> Inl e | Inr x \<Rightarrow> f x)"

section \<open>The restricted maximum-likelihood standard deviation\<close>

definition get_sd_diff_ML_null ::
    "nat \<Rightarrow> nat \<Rightarrow> pyfloat \<Rightarrow> pyfloat \<Rightarrow> pyfloat \<Rightarrow> py_error + pyfloat" where
  "get_sd_diff_ML_null n1 n2 p1_ml p2_ml delta =
     py_bind (int_truediv n2 n1) (\<lambda>theta.
       let d = (- p1_ml) * delta * (Fin 1 + delta);
           c = py_pow delta 2 + delta * (Fin 2 * p1_ml + theta + Fin 1) + p1_ml
                 + theta * p2_ml;
           b = - (Fin 1 + theta + p1_ml + theta * p2_ml + delta * (theta + Fin 2));
           a = Fin 1 + theta;
           v = py_pow b 3 / (Fin 27 * py_pow a 3) - b * c / (Fin 6 * py_pow a 2)
                 + d / (Fin 2 * a)
       in py_bind (math_sqrt (py_pow b 2 / (Fin 9 * py_pow a 2) - c / (Fin 3 * a))) (\<lambda>s.
            let u = np_sign v * s
            in py_bind (math_acos (v / py_pow u 3)) (\<lambda>ac.
                 let w = (Fin pi + ac) / Fin 3
                 in py_bind (math_cos w) (\<lambda>cw.
                      let p1_ML_null = Fin 2 * u * cw - b / (Fin 3 * a);
                          p2_ML_null = p1_ML_null - delta
                      in math_sqrt
                           (p1_ML_null * (Fin 1 - p1_ML_null) / Fin (real n1)
                            + p2_ML_null * (Fin 1 - p2_ML_null) / Fin (real n2))))))"

section \<open>Test statistic and the target of the confidence-interval search\<close>

text \<open>
  \<open>scipy.stats.norm\<close> is not part of the repository.  Its distribution function is taken
  as the standard normal distribution function, given by its Maclaurin series
  \<open>1/2 + (x - x^3/6 + x^5/40 - ...) / sqrt (2 pi)\<close>; \<open>norm.sf\<close> is the upper tail.
\<close>

definition ncdf_coeff :: "nat \<Rightarrow> real" where
  "ncdf_coeff n =
     (if even n then 0
      else (- 1) ^ ((n - 1) div 2) / (2 ^ ((n - 1) div 2) * fact ((n - 1) div 2) * real n))"

definition std_normal_cdf :: "real \<Rightarrow> real" where
  "std_normal_cdf x = 1 / 2 + (\<Sum>n. ncdf_coeff n * x ^ n) / sqrt (2 * pi)"

fun norm_cdf :: "pyfloat \<Rightarrow> pyfloat" where
  "norm_cdf (Fin x) = Fin (std_normal_cdf x)"
| "norm_cdf PInf = Fin 1"
| "norm_cdf NInf = Fin 0"
| "norm_cdf NaN = NaN"

fun norm_sf :: "pyfloat \<Rightarrow> pyfloat" where
  "norm_sf (Fin x) = Fin (1 - std_normal_cdf x)"
| "norm_sf PInf = Fin 0"
| "norm_sf NInf = Fin 1"
| "norm_sf NaN = NaN"

definition get_z :: "pyfloat \<Rightarrow> pyfloat \<Rightarrow> pyfloat \<Rightarrow> pyfloat" where
  "get_z diff_ml delta sd_diff = (diff_ml - delta) / sd_diff"

definition get_ci :: "pyfloat \<Rightarrow> pyfloat \<Rightarrow> pyfloat \<Rightarrow> pyfloat \<Rightarrow> pyfloat" where
  "get_ci delta diff_ml sd_diff alpha_mod =
     (let z = get_z diff_ml delta sd_diff
      in Fin 2 * py_min (norm_sf z) (norm_cdf z) - alpha_mod)"

section \<open>The entry point\<close>

text \<open>
  \<open>str.casefold\<close> on ASCII strings: the capital letters are mapped to their small
  letters and every other ASCII character is left as it is.  Outside ASCII Python folds
  by the Unicode tables (the sharp s becomes \<open>ss\<close>, for instance); that part is not modelled, the
  definition leaves such a character as it is, and what is proved about an alternative
  that the entry point rejects is stated for ASCII alternatives.
\<close>

definition casefold_char :: "char \<Rightarrow> char" where
  "casefold_char ch =
     (let k = (of_char ch :: nat) in if 65 \<le> k \<and> k \<le> 90 then char_of (k + 32) else ch)"

definition casefold :: "string \<Rightarrow> string" where
  "casefold s = map casefold_char s"

definition is_ascii :: "string \<Rightarrow> bool" where
  "is_ascii s = list_all (\<lambda>ch. (of_char ch :: nat) < 128) s"

text \<open>
  \<open>scipy.optimize.brentq\<close> is not part of the repository either: the root finder is a
  parameter of the model.  It receives the target function and the two ends of the
  bracket, and returns a root or raises.
\<close>

type_synonym root_finder =
  "(pyfloat \<Rightarrow> pyfloat) \<Rightarrow> pyfloat \<Rightarrow> pyfloat \<Rightarrow> py_error + pyfloat"

record fm_result =
  rate_difference :: pyfloat
  z_statistic :: pyfloat
  p_value :: pyfloat
  ci :: "pyfloat list"

definition int_of_val :: "bool \<Rightarrow> int" where
  "int_of_val t = (if t then 1 else 0)"

definition alternative_error :: py_error where
  "alternative_error =
     ValueError ''alternative must be one of `two-sided`, `greater` or `less`''"

definition farrington_manning ::
    "root_finder \<Rightarrow> bool list \<Rightarrow> bool list \<Rightarrow> pyfloat \<Rightarrow> string \<Rightarrow> pyfloat
      \<Rightarrow> py_error + fm_result" where
  "farrington_manning brentq group1 group2 delta alternative alpha =
     (if casefold alternative \<notin> set [''two-sided'', ''greater'', ''less'']
      then Inl alternative_error
      else
        let n1 = length group1; n2 = length group2;
            g1 = map int_of_val group1; g2 = map int_of_val group2;
            p1_ml = np_mean g1; p2_ml = np_mean g2;
            diff_ml = p1_ml - p2_ml
        in py_bind (get_sd_diff_ML_null n1 n2 p1_ml p2_ml delta) (\<lambda>sd_diff_ml_null.
             let z = get_z diff_ml delta sd_diff_ml_null;
                 p = (if casefold alternative = ''two-sided''
                      then Fin 2 * py_min (norm_sf z) (norm_cdf z)
                      else if casefold alternative = ''greater'' then norm_sf z
                      else norm_cdf z);
                 alpha_mod =
                   (if casefold alternative = ''two-sided'' then alpha else Fin 2 * alpha)
             in py_bind
                  (brentq (\<lambda>x. get_ci x diff_ml sd_diff_ml_null alpha_mod)
                     (Fin (- 1) + Fin (1 / 10 ^ 6)) diff_ml) (\<lambda>ci_lower.
                py_bind
                  (brentq (\<lambda>x. get_ci x diff_ml sd_diff_ml_null alpha_mod)
                     diff_ml (Fin 1 - Fin (1 / 10 ^ 6))) (\<lambda>ci_upper.
                Inr \<lparr>rate_difference = diff_ml, z_statistic = z, p_value = p,
                     ci = [ci_lower, ci_upper]\<rparr>))))"


section \<open>A root finder for the examples\<close>

text \<open>
  The examples below run the entry point with the following root finder.  At the two
  ends of the bracket, which may come in either order, it behaves as \<open>brentq\<close> does: it
  evaluates the target at both ends, a NaN value of the target is an error, an end at which
  the target is exactly zero is returned, and two values of the same sign are an error.
  Where \<open>brentq\<close> would start to iterate, it answers with the midpoint of the bracket.  A
  bracket with an end that is not finite, on which the iteration cannot converge, is
  refused; the entry point never passes one with a target that is not NaN.
\<close>

definition sign_error :: py_error where
  "sign_error = ValueError ''f(a) and f(b) must have different signs''"

definition nan_error :: py_error where
  "nan_error = ValueError ''The function value is NaN; solver cannot continue.''"

definition bracket_error :: py_error where
  "bracket_error = ValueError ''the ends of the bracket must be finite''"

definition midpoint_finder :: root_finder where
  "midpoint_finder f a b =
     (let fa = f a; fb = f b
      in if fa = NaN \<or> fb = NaN then Inl nan_error
         else if \<not> is_fin a \<or> \<not> is_fin b then Inl bracket_error
         else if fa = Fin 0 then Inr a
         else if fb = Fin 0 then Inr b
         else if flt (Fin 0) (fa * fb) then Inl sign_error
         else Inr ((a + b) / Fin 2))"

text \<open>Comparison \<open>a \<le> b\<close> of two floats.\<close>

fun fle :: "pyfloat \<Rightarrow> pyfloat \<Rightarrow> bool" where
  "fle (Fin x) (Fin y) = (x \<le> y)"
| "fle NaN y = False"
| "fle x NaN = False"
| "fle x PInf = True"
| "fle NInf y = True"
| "fle PInf y = False"
| "fle x NInf = False"

text \<open>
  What the claims about the confidence bounds need of a root finder: a root it
  returns lies between the two ends of the bracket, in whichever order they are given.
\<close>

definition in_bracket :: "root_finder \<Rightarrow> bool" where
  "in_bracket bq \<longleftrightarrow>
     (\<forall>f a b r. bq f a b = Inr r \<longrightarrow> (fle a r \<and> fle r b) \<or> (fle b r \<and> fle r a))"

text \<open>
  What \<open>brentq\<close> does when the target has the same sign at both ends of the bracket:
  it raises.
\<close>

definition rejects_same_sign :: "root_finder \<Rightarrow> bool" where
  "rejects_same_sign bq \<longleftrightarrow>
     (\<forall>f a b x y. f a = Fin x \<and> f b = Fin y \<and> 0 < x * y \<longrightarrow> (\<exists>e. bq f a b = Inl e))"

text \<open>
  What \<open>brentq\<close> does when the target is NaN at the first end of the bracket, where it is
  evaluated first: it raises (\<open>ValueError\<close>, the function value is NaN).
\<close>

definition raises_on_nan :: "root_finder \<Rightarrow> bool" where
  "raises_on_nan bq \<longleftrightarrow> (\<forall>f a b. f a = NaN \<longrightarrow> (\<exists>e. bq f a b = Inl e))"

section \<open>The formulas of the restricted maximum-likelihood solver, as the specification
  writes them\<close>

text \<open>
  The quantities of the closed-form solution over the real numbers, one definition for
  each line of the specification.  They are compared with \<open>get_sd_diff_ML_null\<close> below.
\<close>

definition spec_theta :: "nat \<Rightarrow> nat \<Rightarrow> real" where
  "spec_theta n1 n2 = real n2 / real n1"

definition spec_a :: "real \<Rightarrow> real" where
  "spec_a \<theta> = 1 + \<theta>"

definition spec_b :: "real \<Rightarrow> real \<Rightarrow> real \<Rightarrow> real \<Rightarrow> real" where
  "spec_b \<theta> p1 p2 \<delta> = - (1 + \<theta> + p1 + \<theta> * p2 + \<delta> * (\<theta> + 2))"

definition spec_c :: "real \<Rightarrow> real \<Rightarrow> real \<Rightarrow> real \<Rightarrow> real" where
  "spec_c \<theta> p1 p2 \<delta> = \<delta>\<^sup>2 + \<delta> * (2 * p1 + \<theta> + 1) + p1 + \<theta> * p2"

definition spec_d :: "real \<Rightarrow> real \<Rightarrow> real" where
  "spec_d p1 \<delta> = - p1 * \<delta> * (1 + \<delta>)"

definition spec_v :: "real \<Rightarrow> real \<Rightarrow> real \<Rightarrow> real \<Rightarrow> real" where
  "spec_v \<theta> p1 p2 \<delta> =
     (let a = spec_a \<theta>; b = spec_b \<theta> p1 p2 \<delta>; c = spec_c \<theta> p1 p2 \<delta>; d = spec_d p1 \<delta>
      in b ^ 3 / (27 * a ^ 3) - b * c / (6 * a\<^sup>2) + d / (2 * a))"

definition spec_disc :: "real \<Rightarrow> real \<Rightarrow> real \<Rightarrow> real \<Rightarrow> real" where
  "spec_disc \<theta> p1 p2 \<delta> =
     (let a = spec_a \<theta>; b = spec_b \<theta> p1 p2 \<delta>; c = spec_c \<theta> p1 p2 \<delta>
      in b\<^sup>2 / (9 * a\<^sup>2) - c / (3 * a))"

definition spec_u :: "real \<Rightarrow> real \<Rightarrow> real \<Rightarrow> real \<Rightarrow> real" where
  "spec_u \<theta> p1 p2 \<delta> = sgn (spec_v \<theta> p1 p2 \<delta>) * sqrt (spec_disc \<theta> p1 p2 \<delta>)"

definition spec_w :: "real \<Rightarrow> real \<Rightarrow> real \<Rightarrow> real \<Rightarrow> real" where
  "spec_w \<theta> p1 p2 \<delta> = (pi + arccos (spec_v \<theta> p1 p2 \<delta> / spec_u \<theta> p1 p2 \<delta> ^ 3)) / 3"

definition spec_p1_null :: "real \<Rightarrow> real \<Rightarrow> real \<Rightarrow> real \<Rightarrow> real" where
  "spec_p1_null \<theta> p1 p2 \<delta> =
     2 * spec_u \<theta> p1 p2 \<delta> * cos (spec_w \<theta> p1 p2 \<delta>)
       - spec_b \<theta> p1 p2 \<delta> / (3 * spec_a \<theta>)"

definition spec_p2_null :: "real \<Rightarrow> real \<Rightarrow> real \<Rightarrow> real \<Rightarrow> real" where
  "spec_p2_null \<theta> p1 p2 \<delta> = spec_p1_null \<theta> p1 p2 \<delta> - \<delta>"

definition spec_sd_null :: "nat \<Rightarrow> nat \<Rightarrow> real \<Rightarrow> real \<Rightarrow> real \<Rightarrow> real" where
  "spec_sd_null n1 n2 p1 p2 \<delta> =
     (let \<theta> = spec_theta n1 n2;
          q1 = spec_p1_null \<theta> p1 p2 \<delta>;
          q2 = spec_p2_null \<theta> p1 p2 \<delta>
      in sqrt (q1 * (1 - q1) / real n1 + q2 * (1 - q2) / real n2))"

section \<open>Arithmetic on finite values\<close>

lemmas pyfloat_ops =
  plus_pyfloat_def minus_pyfloat_def uminus_pyfloat_def times_pyfloat_def divide_pyfloat_def

lemma Fin_plus [simp]: "Fin x + Fin y = Fin (x + y)"
  by (simp add: plus_pyfloat_def)

lemma Fin_minus [simp]: "Fin x - Fin y = Fin (x - y)"
  by (simp add: minus_pyfloat_def)

lemma Fin_uminus [simp]: "- Fin x = Fin (- x)"
  by (simp add: uminus_pyfloat_def)

lemma Fin_times [simp]: "Fin x * Fin y = Fin (x * y)"
  by (simp add: times_pyfloat_def)

lemma Fin_divide [simp]: "y \<noteq> 0 \<Longrightarrow> Fin x / Fin y = Fin (x / y)"
  by (simp add: divide_pyfloat_def)

lemma Fin_divide_zero [simp]: "Fin x / Fin 0 = inf_of_sign (sgn x)"
  by (simp add: divide_pyfloat_def)

lemma py_pow_Fin [simp]: "py_pow (Fin x) n = Fin (x ^ n)"
  by (induction n) simp_all

lemma NaN_left [simp]: "NaN + a = NaN" "NaN - a = NaN" "NaN * a = NaN" "NaN / a = NaN"
  by (cases a; simp add: pyfloat_ops)+

lemma NaN_right [simp]: "a + NaN = NaN" "a - NaN = NaN" "a * NaN = NaN" "a / NaN = NaN"
  by (cases a; simp add: pyfloat_ops)+

lemma NaN_uminus [simp]: "- NaN = NaN"
  by (simp add: uminus_pyfloat_def)

lemma py_pow_NaN [simp]: "py_pow NaN (Suc n) = NaN"
  by simp

lemma py_bind_Inl [simp]: "py_bind (Inl e) f = Inl e"
  by (simp add: py_bind_def)

lemma py_bind_Inr [simp]: "py_bind (Inr x) f = f x"
  by (simp add: py_bind_def)

lemma py_bind_eq_Inr:
  "py_bind m f = Inr y \<longleftrightarrow> (\<exists>x. m = Inr x \<and> f x = Inr y)"
  by (cases m) simp_all

lemma casefold_two_sided: "casefold ''two-sided'' = ''two-sided''"
  by code_simp

lemma casefold_greater: "casefold ''greater'' = ''greater''"
  by code_simp

lemma casefold_less: "casefold ''less'' = ''less''"
  by code_simp

section \<open>The depressed cubic and its middle root\<close>

lemma cubic_diff:
  fixes s t D v :: real
  shows "(s ^ 3 - 3 * D * s + 2 * v) - (t ^ 3 - 3 * D * t + 2 * v)
         = (s - t) * (s\<^sup>2 + s * t + t\<^sup>2 - 3 * D)"
  by (simp add: algebra_simps power2_eq_square power3_eq_cube)

lemma cubic_decreasing_inside:
  fixes s t \<sigma> v :: real
  assumes "- \<sigma> \<le> s" "s < t" "t \<le> \<sigma>"
  shows "t ^ 3 - 3 * \<sigma>\<^sup>2 * t + 2 * v < s ^ 3 - 3 * \<sigma>\<^sup>2 * s + 2 * v"
proof -
  define A where "A = (\<sigma> - s) * (\<sigma> + s)"
  define B where "B = (\<sigma> - t) * (\<sigma> + t)"
  define C where "C = (\<sigma> - s) * (\<sigma> + t)"
  define E where "E = (\<sigma> + s) * (\<sigma> - t)"
  have p1: "0 \<le> A" unfolding A_def using assms by (intro mult_nonneg_nonneg) auto
  have p2: "0 \<le> B" unfolding B_def using assms by (intro mult_nonneg_nonneg) auto
  have p3: "0 < C" unfolding C_def using assms by (intro mult_pos_pos) auto
  have p4: "0 \<le> E" unfolding E_def using assms by (intro mult_nonneg_nonneg) auto
  have "6 * \<sigma>\<^sup>2 - 2 * s\<^sup>2 - 2 * (s * t) - 2 * t\<^sup>2 = 2 * A + 2 * B + C + E"
    unfolding A_def B_def C_def E_def by (simp add: algebra_simps power2_eq_square)
  with p1 p2 p3 p4 have neg: "s\<^sup>2 + s * t + t\<^sup>2 - 3 * \<sigma>\<^sup>2 < 0" by linarith
  have "(s - t) * (s\<^sup>2 + s * t + t\<^sup>2 - 3 * \<sigma>\<^sup>2) > 0"
    using assms(2) neg by (intro mult_neg_neg) auto
  then show ?thesis using cubic_diff [of s "\<sigma>\<^sup>2" v t] by linarith
qed

lemma cubic_increasing_right:
  fixes s t \<sigma> v :: real
  assumes "0 \<le> \<sigma>" "\<sigma> \<le> s" "s < t"
  shows "s ^ 3 - 3 * \<sigma>\<^sup>2 * s + 2 * v < t ^ 3 - 3 * \<sigma>\<^sup>2 * t + 2 * v"
proof -
  define A where "A = (s - \<sigma>) * (s + \<sigma>)"
  define B where "B = (t - \<sigma>) * (t + \<sigma>)"
  define C where "C = (s - \<sigma>) * t"
  define E where "E = \<sigma> * (t - \<sigma>)"
  have p1: "0 \<le> A" unfolding A_def using assms by (intro mult_nonneg_nonneg) auto
  have p2: "0 < B" unfolding B_def using assms by (intro mult_pos_pos) auto
  have p3: "0 \<le> C" unfolding C_def using assms by (intro mult_nonneg_nonneg) auto
  have p4: "0 \<le> E" unfolding E_def using assms by (intro mult_nonneg_nonneg) auto
  have "s\<^sup>2 + s * t + t\<^sup>2 - 3 * \<sigma>\<^sup>2 = A + B + C + E"
    unfolding A_def B_def C_def E_def by (simp add: algebra_simps power2_eq_square)
  with p1 p2 p3 p4 have pos: "0 < s\<^sup>2 + s * t + t\<^sup>2 - 3 * \<sigma>\<^sup>2" by linarith
  have "(s - t) * (s\<^sup>2 + s * t + t\<^sup>2 - 3 * \<sigma>\<^sup>2) < 0"
    using assms(3) pos by (intro mult_neg_pos) auto
  then show ?thesis using cubic_diff [of s "\<sigma>\<^sup>2" v t] by linarith
qed

lemma cubic_increasing_left:
  fixes s t \<sigma> v :: real
  assumes "0 \<le> \<sigma>" "s < t" "t \<le> - \<sigma>"
  shows "s ^ 3 - 3 * \<sigma>\<^sup>2 * s + 2 * v < t ^ 3 - 3 * \<sigma>\<^sup>2 * t + 2 * v"
proof -
  have "(- t) ^ 3 - 3 * \<sigma>\<^sup>2 * (- t) + 2 * (- v) < (- s) ^ 3 - 3 * \<sigma>\<^sup>2 * (- s) + 2 * (- v)"
    using assms by (intro cubic_increasing_right) auto
  then show ?thesis by (simp add: power3_eq_cube)
qed

lemma cubic_increasing_nonpos:
  fixes s t D v :: real
  assumes "D \<le> 0" "s < t"
  shows "s ^ 3 - 3 * D * s + 2 * v < t ^ 3 - 3 * D * t + 2 * v"
proof -
  have "s\<^sup>2 + s * t + t\<^sup>2 = (s + t / 2)\<^sup>2 + 3 * (t / 2)\<^sup>2"
    by (simp add: algebra_simps power2_eq_square)
  moreover have "0 < (s + t / 2)\<^sup>2 + 3 * (t / 2)\<^sup>2"
  proof (cases "t = 0")
    case True
    with assms(2) have "s \<noteq> 0" by simp
    with True show ?thesis by simp
  next
    case False
    then have "0 < (t / 2)\<^sup>2" by simp
    moreover have "0 \<le> (s + t / 2)\<^sup>2" by simp
    ultimately show ?thesis by linarith
  qed
  ultimately have pos: "0 < s\<^sup>2 + s * t + t\<^sup>2 - 3 * D" using assms(1) by linarith
  have "(s - t) * (s\<^sup>2 + s * t + t\<^sup>2 - 3 * D) < 0"
    using assms(2) pos by (intro mult_neg_pos) auto
  then show ?thesis using cubic_diff [of s D v t] by linarith
qed


lemma depressed_cubic_root:
  fixes D v tB tC :: real
  assumes lt: "tB < tC"
    and gB: "0 \<le> tB ^ 3 - 3 * D * tB + 2 * v"
    and gC: "tC ^ 3 - 3 * D * tC + 2 * v \<le> 0"
    and v: "v \<noteq> 0"
  defines "u \<equiv> sgn v * sqrt D"
  defines "r \<equiv> 2 * u * cos ((pi + arccos (v / u ^ 3)) / 3)"
  shows "0 < D \<and> u \<noteq> 0 \<and> 0 \<le> v / u ^ 3 \<and> v / u ^ 3 \<le> 1
         \<and> r ^ 3 - 3 * D * r + 2 * v = 0 \<and> tB \<le> r \<and> r \<le> tC"
proof -
  let ?g = "\<lambda>t. t ^ 3 - 3 * D * t + 2 * v"
  have D: "0 < D"
  proof (rule ccontr)
    assume "\<not> 0 < D"
    then have "D \<le> 0" by simp
    from cubic_increasing_nonpos [OF this lt, of v] gB gC show False by linarith
  qed
  define \<sigma> where "\<sigma> = sqrt D"
  have \<sigma>: "0 < \<sigma>" and D\<sigma>: "D = \<sigma>\<^sup>2" using D by (simp_all add: \<sigma>_def)
  have g\<sigma>: "?g \<sigma> = 2 * v - 2 * \<sigma> ^ 3" and gm\<sigma>: "?g (- \<sigma>) = 2 * v + 2 * \<sigma> ^ 3"
    by (simp_all add: D\<sigma> power2_eq_square power3_eq_cube)
  have dec: "?g t < ?g s" if "- \<sigma> \<le> s" "s < t" "t \<le> \<sigma>" for s t
    using cubic_decreasing_inside [OF that, of v] by (simp add: D\<sigma>)
  have incr: "?g s < ?g t" if "\<sigma> \<le> s" "s < t" for s t
    using cubic_increasing_right [OF less_imp_le [OF \<sigma>] that, of v] by (simp add: D\<sigma>)
  have incl: "?g s < ?g t" if "s < t" "t \<le> - \<sigma>" for s t
    using cubic_increasing_left [OF less_imp_le [OF \<sigma>] that, of v] by (simp add: D\<sigma>)
  have up: "v \<le> \<sigma> ^ 3"
  proof (rule ccontr)
    assume "\<not> v \<le> \<sigma> ^ 3"
    then have pos: "0 < ?g \<sigma>" using g\<sigma> by linarith
    have "tC < - \<sigma>"
    proof (rule ccontr)
      assume "\<not> tC < - \<sigma>"
      then have *: "- \<sigma> \<le> tC" by simp
      consider "tC < \<sigma>" | "tC = \<sigma>" | "\<sigma> < tC" by linarith
      then have "0 < ?g tC"
      proof cases
        case 1 from dec [OF * 1] pos show ?thesis by linarith
      next
        case 2 with pos show ?thesis by simp
      next
        case 3 from incr [OF _ 3] pos show ?thesis by linarith
      qed
      with gC show False by linarith
    qed
    with incl [OF lt] gB gC show False by linarith
  qed
  have low: "- (\<sigma> ^ 3) \<le> v"
  proof (rule ccontr)
    assume "\<not> - (\<sigma> ^ 3) \<le> v"
    then have neg: "?g (- \<sigma>) < 0" using gm\<sigma> by linarith
    have "\<sigma> < tB"
    proof (rule ccontr)
      assume "\<not> \<sigma> < tB"
      then have *: "tB \<le> \<sigma>" by simp
      consider "tB < - \<sigma>" | "tB = - \<sigma>" | "- \<sigma> < tB" by linarith
      then have "?g tB < 0"
      proof cases
        case 1 from incl [OF 1] neg show ?thesis by linarith
      next
        case 2 with neg show ?thesis by simp
      next
        case 3 from dec [OF _ 3 *] neg show ?thesis by linarith
      qed
      with gB show False by linarith
    qed
    with incr [OF _ lt] gB gC show False by linarith
  qed
  have u\<sigma>: "\<bar>u\<bar> = \<sigma>" using v \<sigma> by (simp add: u_def \<sigma>_def abs_mult)
  have u0: "u \<noteq> 0" using u\<sigma> \<sigma> by auto
  have u2: "u\<^sup>2 = D" using v by (simp add: u_def power_mult_distrib sgn_if D less_imp_le)
  have u3: "u ^ 3 = sgn v * \<sigma> ^ 3" using v by (simp add: u_def \<sigma>_def power_mult_distrib sgn_if)
  have \<sigma>3: "0 < \<sigma> ^ 3" using \<sigma> by simp
  have ratio: "v / u ^ 3 = \<bar>v\<bar> / \<sigma> ^ 3" using v by (simp add: u3 sgn_if)
  have r0: "0 \<le> v / u ^ 3" unfolding ratio using \<sigma>3 by simp
  have r1: "v / u ^ 3 \<le> 1" unfolding ratio using \<sigma>3 up low by (simp add: abs_le_iff)
  define \<phi> where "\<phi> = arccos (v / u ^ 3)"
  define w where "w = (pi + \<phi>) / 3"
  have \<phi>: "0 \<le> \<phi>" "\<phi> \<le> pi / 2" "cos \<phi> = v / u ^ 3"
    unfolding \<phi>_def using r0 r1 arccos_lbound [of "v / u ^ 3"] arccos_le_pi2 [of "v / u ^ 3"]
    by simp_all
  have w: "pi / 3 \<le> w" "w \<le> pi / 2" using \<phi> by (simp_all add: w_def)
  have cw0: "0 \<le> cos w" using w pi_gt_zero by (intro cos_ge_zero) linarith+
  have cw1: "cos w \<le> 1 / 2"
  proof -
    have "cos w \<le> cos (pi / 3)" using w pi_gt_zero by (intro cos_monotone_0_pi_le) linarith+
    then show ?thesis by (simp add: cos_60)
  qed
  have "3 * w = pi + \<phi>" by (simp add: w_def)
  then have c3: "cos (3 * w) = - (v / u ^ 3)" using \<phi>(3) by simp
  have rw: "r = 2 * u * cos w" by (simp add: r_def w_def \<phi>_def)
  have "r ^ 3 - 3 * D * r + 2 * v = 2 * u ^ 3 * (4 * cos w ^ 3 - 3 * cos w) + 2 * v"
    unfolding rw u2 [symmetric] by (simp add: algebra_simps power2_eq_square power3_eq_cube)
  also have "\<dots> = 2 * u ^ 3 * cos (3 * w) + 2 * v" by (simp add: cos_treble_cos)
  also have "\<dots> = 0" using u0 by (simp add: c3)
  finally have root: "r ^ 3 - 3 * D * r + 2 * v = 0" .
  have "\<bar>r\<bar> = 2 * \<sigma> * cos w" using cw0 by (simp add: rw abs_mult u\<sigma>)
  also have "\<dots> \<le> 2 * \<sigma> * (1 / 2)" using cw1 \<sigma> by (intro mult_left_mono) auto
  finally have rin: "- \<sigma> \<le> r" "r \<le> \<sigma>" by (simp_all add: abs_le_iff)
  have lo: "tB \<le> r"
  proof (rule ccontr)
    assume "\<not> tB \<le> r"
    then have *: "r < tB" by simp
    show False
    proof (cases "tB \<le> \<sigma>")
      case True
      from dec [OF rin(1) * True] root gB show False by linarith
    next
      case False
      then have "\<sigma> \<le> tB" by simp
      from incr [OF this lt] gB gC show False by linarith
    qed
  qed
  have hi: "r \<le> tC"
  proof (rule ccontr)
    assume "\<not> r \<le> tC"
    then have *: "tC < r" by simp
    show False
    proof (cases "- \<sigma> \<le> tC")
      case True
      from dec [OF True * rin(2)] root gC show False by linarith
    next
      case False
      then have "tC \<le> - \<sigma>" by simp
      from incl [OF lt this] gB gC show False by linarith
    qed
  qed
  from D u0 r0 r1 root lo hi show ?thesis by simp
qed

section \<open>The cubic of the restricted maximum-likelihood estimate\<close>

lemma depress_identity:
  fixes a b c d x :: real
  assumes "a \<noteq> 0"
  shows "(x + b / (3 * a)) ^ 3 - 3 * (b\<^sup>2 / (9 * a\<^sup>2) - c / (3 * a)) * (x + b / (3 * a))
           + 2 * (b ^ 3 / (27 * a ^ 3) - b * c / (6 * a\<^sup>2) + d / (2 * a))
         = (a * x ^ 3 + b * x\<^sup>2 + c * x + d) / a"
  using assms by (simp add: field_simps power2_eq_square power3_eq_cube)

lemma cubic_at_0:
  "spec_a \<theta> * 0 ^ 3 + spec_b \<theta> p1 p2 \<delta> * 0\<^sup>2 + spec_c \<theta> p1 p2 \<delta> * 0 + spec_d p1 \<delta>
     = - (p1 * \<delta> * (1 + \<delta>))"
  by (simp add: spec_d_def)

lemma cubic_at_delta:
  "spec_a \<theta> * \<delta> ^ 3 + spec_b \<theta> p1 p2 \<delta> * \<delta>\<^sup>2 + spec_c \<theta> p1 p2 \<delta> * \<delta> + spec_d p1 \<delta>
     = \<theta> * p2 * \<delta> * (1 - \<delta>)"
  by (simp add: spec_a_def spec_b_def spec_c_def spec_d_def algebra_simps power2_eq_square power3_eq_cube)

lemma cubic_at_1:
  "spec_a \<theta> * 1 ^ 3 + spec_b \<theta> p1 p2 \<delta> * 1\<^sup>2 + spec_c \<theta> p1 p2 \<delta> * 1 + spec_d p1 \<delta>
     = - (\<delta> * (1 - \<delta>) * (1 - p1))"
  by (simp add: spec_a_def spec_b_def spec_c_def spec_d_def algebra_simps power2_eq_square power3_eq_cube)

lemma cubic_at_1_plus_delta:
  "spec_a \<theta> * (1 + \<delta>) ^ 3 + spec_b \<theta> p1 p2 \<delta> * (1 + \<delta>)\<^sup>2 + spec_c \<theta> p1 p2 \<delta> * (1 + \<delta>)
     + spec_d p1 \<delta> = \<theta> * \<delta> * (1 + \<delta>) * (1 - p2)"
  by (simp add: spec_a_def spec_b_def spec_c_def spec_d_def algebra_simps power2_eq_square power3_eq_cube)


lemma rml_root_valid:
  assumes \<theta>: "0 < \<theta>" and p: "0 \<le> p1" "p1 \<le> 1" "0 \<le> p2" "p2 \<le> 1"
    and \<delta>: "- 1 < \<delta>" "\<delta> < 1" and v: "spec_v \<theta> p1 p2 \<delta> \<noteq> 0"
  shows "0 < spec_disc \<theta> p1 p2 \<delta> \<and> spec_u \<theta> p1 p2 \<delta> \<noteq> 0
         \<and> 0 \<le> spec_v \<theta> p1 p2 \<delta> / spec_u \<theta> p1 p2 \<delta> ^ 3
         \<and> spec_v \<theta> p1 p2 \<delta> / spec_u \<theta> p1 p2 \<delta> ^ 3 \<le> 1
         \<and> max 0 \<delta> \<le> spec_p1_null \<theta> p1 p2 \<delta>
         \<and> spec_p1_null \<theta> p1 p2 \<delta> \<le> min 1 (1 + \<delta>)"
proof -
  define a where "a = spec_a \<theta>"
  define b where "b = spec_b \<theta> p1 p2 \<delta>"
  define c where "c = spec_c \<theta> p1 p2 \<delta>"
  define d where "d = spec_d p1 \<delta>"
  define P where "P = (\<lambda>x. a * x ^ 3 + b * x\<^sup>2 + c * x + d)"
  define D where "D = spec_disc \<theta> p1 p2 \<delta>"
  define V where "V = spec_v \<theta> p1 p2 \<delta>"
  have a: "0 < a" using \<theta> by (simp add: a_def spec_a_def)
  have Dab: "D = b\<^sup>2 / (9 * a\<^sup>2) - c / (3 * a)"
    by (simp add: D_def spec_disc_def Let_def a_def b_def c_def)
  have Vab: "V = b ^ 3 / (27 * a ^ 3) - b * c / (6 * a\<^sup>2) + d / (2 * a)"
    by (simp add: V_def spec_v_def Let_def a_def b_def c_def d_def)
  have g: "(x + b / (3 * a)) ^ 3 - 3 * D * (x + b / (3 * a)) + 2 * V = P x / a" for x
    unfolding Dab Vab P_def using a by (intro depress_identity) simp
  have P0: "P 0 = - (p1 * \<delta> * (1 + \<delta>))"
    using cubic_at_0 [of \<theta> p1 p2 \<delta>] by (simp add: P_def a_def b_def c_def d_def)
  have P\<delta>: "P \<delta> = \<theta> * p2 * \<delta> * (1 - \<delta>)"
    using cubic_at_delta [of \<theta> \<delta> p1 p2] by (simp add: P_def a_def b_def c_def d_def)
  have P1: "P 1 = - (\<delta> * (1 - \<delta>) * (1 - p1))"
    using cubic_at_1 [of \<theta> p1 p2 \<delta>] by (simp add: P_def a_def b_def c_def d_def)
  have P1\<delta>: "P (1 + \<delta>) = \<theta> * \<delta> * (1 + \<delta>) * (1 - p2)"
    using cubic_at_1_plus_delta [of \<theta> \<delta> p1 p2] by (simp add: P_def a_def b_def c_def d_def)
  define B where "B = max 0 \<delta>"
  define C where "C = min 1 (1 + \<delta>)"
  have BC: "B < C" using \<delta> by (simp add: B_def C_def)
  have PB: "0 \<le> P B"
  proof (cases "0 \<le> \<delta>")
    case True
    then have "B = \<delta>" by (simp add: B_def)
    moreover have "0 \<le> \<theta> * p2 * \<delta> * (1 - \<delta>)"
      using True \<theta> p \<delta> by (intro mult_nonneg_nonneg) auto
    ultimately show ?thesis by (simp add: P\<delta>)
  next
    case False
    then have "B = 0" by (simp add: B_def)
    moreover have "0 \<le> p1 * (- \<delta>) * (1 + \<delta>)"
      using False p \<delta> by (intro mult_nonneg_nonneg) auto
    ultimately show ?thesis by (simp add: P0)
  qed
  have PC: "P C \<le> 0"
  proof (cases "0 \<le> \<delta>")
    case True
    then have "C = 1" by (simp add: C_def)
    moreover have "0 \<le> \<delta> * (1 - \<delta>) * (1 - p1)"
      using True p \<delta> by (intro mult_nonneg_nonneg) auto
    ultimately show ?thesis by (simp add: P1)
  next
    case False
    then have "C = 1 + \<delta>" by (simp add: C_def)
    moreover have "0 \<le> \<theta> * (- \<delta>) * (1 + \<delta>) * (1 - p2)"
      using False \<theta> p \<delta> by (intro mult_nonneg_nonneg) auto
    ultimately show ?thesis by (simp add: P1\<delta>)
  qed
  have gB: "0 \<le> (B + b / (3 * a)) ^ 3 - 3 * D * (B + b / (3 * a)) + 2 * V"
    unfolding g using PB a by simp
  have gC: "(C + b / (3 * a)) ^ 3 - 3 * D * (C + b / (3 * a)) + 2 * V \<le> 0"
    unfolding g using PC a by (simp add: divide_le_0_iff)
  have lt: "B + b / (3 * a) < C + b / (3 * a)" using BC by simp
  have V0: "V \<noteq> 0" using v by (simp add: V_def)
  have u: "spec_u \<theta> p1 p2 \<delta> = sgn V * sqrt D" by (simp add: spec_u_def V_def D_def)
  have q: "spec_p1_null \<theta> p1 p2 \<delta>
      = 2 * (sgn V * sqrt D) * cos ((pi + arccos (V / (sgn V * sqrt D) ^ 3)) / 3) - b / (3 * a)"
    by (simp add: spec_p1_null_def spec_w_def u V_def [symmetric] a_def b_def)
  from depressed_cubic_root [OF lt gB gC V0]
  show ?thesis
    unfolding D_def [symmetric] V_def [symmetric] u q B_def [symmetric] C_def [symmetric]
    by simp
qed

lemma get_sd_finite:
  assumes "n1 \<noteq> 0" "n2 \<noteq> 0"
  shows "get_sd_diff_ML_null n1 n2 (Fin p1) (Fin p2) (Fin \<delta>) =
    (let \<theta> = spec_theta n1 n2; D = spec_disc \<theta> p1 p2 \<delta>; v = spec_v \<theta> p1 p2 \<delta>;
         u = spec_u \<theta> p1 p2 \<delta>; q1 = spec_p1_null \<theta> p1 p2 \<delta>; q2 = spec_p2_null \<theta> p1 p2 \<delta>;
         rad = q1 * (1 - q1) / real n1 + q2 * (1 - q2) / real n2
     in if D < 0 then Inl math_domain_error
        else if u = 0 then (if v = 0 then Inr NaN else Inl math_domain_error)
        else if v / u ^ 3 < - 1 \<or> 1 < v / u ^ 3 then Inl math_domain_error
        else if rad < 0 then Inl math_domain_error
        else Inr (Fin (sqrt rad)))"
proof -
  define \<theta> where "\<theta> = real n2 / real n1"
  have a: "1 + \<theta> \<noteq> 0" "(1 + \<theta>) ^ 3 \<noteq> 0" "(1 + \<theta>)\<^sup>2 \<noteq> 0"
    using assms by (simp_all add: \<theta>_def add_nonneg_eq_0_iff)
  have n: "real n1 \<noteq> 0" "real n2 \<noteq> 0" using assms by simp_all
  show ?thesis
  proof (cases "spec_u \<theta> p1 p2 \<delta> = 0")
    case True
    then show ?thesis
      using a n unfolding get_sd_diff_ML_null_def int_truediv_def Let_def spec_theta_def
        spec_disc_def spec_v_def spec_u_def spec_p1_null_def spec_p2_null_def spec_w_def
        spec_a_def spec_b_def spec_c_def spec_d_def \<theta>_def[symmetric]
      by (simp add: sgn_if split: if_splits)
  next
    case False
    then show ?thesis
      using a n unfolding get_sd_diff_ML_null_def int_truediv_def Let_def spec_theta_def
        spec_disc_def spec_v_def spec_u_def spec_p1_null_def spec_p2_null_def spec_w_def
        spec_a_def spec_b_def spec_c_def spec_d_def \<theta>_def[symmetric]
      by simp
  qed
qed

lemma rml_root_unique:
  assumes \<theta>: "0 < \<theta>" and v: "spec_v \<theta> p1 p2 \<delta> \<noteq> 0"
    and root: "spec_a \<theta> * x ^ 3 + spec_b \<theta> p1 p2 \<delta> * x\<^sup>2 + spec_c \<theta> p1 p2 \<delta> * x
                 + spec_d p1 \<delta> = 0"
    and inside: "(x + spec_b \<theta> p1 p2 \<delta> / (3 * spec_a \<theta>))\<^sup>2 \<le> spec_disc \<theta> p1 p2 \<delta>"
  shows "spec_p1_null \<theta> p1 p2 \<delta> = x \<and> spec_u \<theta> p1 p2 \<delta> \<noteq> 0
         \<and> 0 \<le> spec_v \<theta> p1 p2 \<delta> / spec_u \<theta> p1 p2 \<delta> ^ 3
         \<and> spec_v \<theta> p1 p2 \<delta> / spec_u \<theta> p1 p2 \<delta> ^ 3 \<le> 1
         \<and> 0 < spec_disc \<theta> p1 p2 \<delta>"
proof -
  define a where "a = spec_a \<theta>"
  define b where "b = spec_b \<theta> p1 p2 \<delta>"
  define c where "c = spec_c \<theta> p1 p2 \<delta>"
  define d where "d = spec_d p1 \<delta>"
  define D where "D = spec_disc \<theta> p1 p2 \<delta>"
  define V where "V = spec_v \<theta> p1 p2 \<delta>"
  define t where "t = x + b / (3 * a)"
  have a: "0 < a" using \<theta> by (simp add: a_def spec_a_def)
  have Dab: "D = b\<^sup>2 / (9 * a\<^sup>2) - c / (3 * a)"
    by (simp add: D_def spec_disc_def Let_def a_def b_def c_def)
  have Vab: "V = b ^ 3 / (27 * a ^ 3) - b * c / (6 * a\<^sup>2) + d / (2 * a)"
    by (simp add: V_def spec_v_def Let_def a_def b_def c_def d_def)
  have V0: "V \<noteq> 0" using v by (simp add: V_def)
  have "t ^ 3 - 3 * D * t + 2 * V = (a * x ^ 3 + b * x\<^sup>2 + c * x + d) / a"
    unfolding Dab Vab t_def using a by (intro depress_identity) simp
  then have gt: "t ^ 3 - 3 * D * t + 2 * V = 0"
    using root by (simp add: a_def b_def c_def d_def)
  have tD: "t\<^sup>2 \<le> D" using inside by (simp add: t_def a_def b_def D_def)
  have Dpos: "0 < D"
  proof (rule ccontr)
    assume "\<not> 0 < D"
    with tD have "t\<^sup>2 \<le> 0" by linarith
    then have "t = 0" by simp
    with gt V0 show False by simp
  qed
  define \<sigma> where "\<sigma> = sqrt D"
  have \<sigma>: "0 < \<sigma>" and D\<sigma>: "D = \<sigma>\<^sup>2" using Dpos by (simp_all add: \<sigma>_def)
  have "\<bar>t\<bar> \<le> \<sigma>" using tD \<sigma> unfolding D\<sigma> by (simp add: abs_le_square_iff [symmetric])
  then have tin: "- \<sigma> \<le> t" "t \<le> \<sigma>" by (simp_all add: abs_le_iff)
  have dec: "s2 ^ 3 - 3 * D * s2 + 2 * V < s1 ^ 3 - 3 * D * s1 + 2 * V"
    if "- \<sigma> \<le> s1" "s1 < s2" "s2 \<le> \<sigma>" for s1 s2
    using cubic_decreasing_inside [OF that, of V] by (simp add: D\<sigma>)
  have gB: "0 \<le> (- \<sigma>) ^ 3 - 3 * D * (- \<sigma>) + 2 * V"
  proof (cases "t = - \<sigma>")
    case True with gt show ?thesis by simp
  next
    case False
    with tin have "- \<sigma> < t" by simp
    from dec [OF _ this tin(2)] gt show ?thesis by simp
  qed
  have gC: "\<sigma> ^ 3 - 3 * D * \<sigma> + 2 * V \<le> 0"
  proof (cases "t = \<sigma>")
    case True with gt show ?thesis by simp
  next
    case False
    with tin have "t < \<sigma>" by simp
    from dec [OF tin(1) this] gt show ?thesis by simp
  qed
  have lt: "- \<sigma> < \<sigma>" using \<sigma> by simp
  define r where "r = 2 * (sgn V * sqrt D) * cos ((pi + arccos (V / (sgn V * sqrt D) ^ 3)) / 3)"
  from depressed_cubic_root [OF lt gB gC V0]
  have res: "sgn V * sqrt D \<noteq> 0" "0 \<le> V / (sgn V * sqrt D) ^ 3" "V / (sgn V * sqrt D) ^ 3 \<le> 1"
    "r ^ 3 - 3 * D * r + 2 * V = 0" "- \<sigma> \<le> r" "r \<le> \<sigma>"
    unfolding r_def by simp_all
  have "r = t"
  proof (rule ccontr)
    assume "r \<noteq> t"
    then consider "r < t" | "t < r" by linarith
    then show False
    proof cases
      case 1 from dec [OF res(5) 1 tin(2)] gt res(4) show False by simp
    next
      case 2 from dec [OF tin(1) 2 res(6)] gt res(4) show False by simp
    qed
  qed
  have u: "spec_u \<theta> p1 p2 \<delta> = sgn V * sqrt D" by (simp add: spec_u_def V_def D_def)
  have q: "spec_p1_null \<theta> p1 p2 \<delta> = r - b / (3 * a)"
    by (simp add: spec_p1_null_def spec_w_def u r_def V_def [symmetric] a_def b_def)
  have "spec_p1_null \<theta> p1 p2 \<delta> = x" unfolding q \<open>r = t\<close> t_def by simp
  with res(1-3) Dpos show ?thesis
    unfolding u V_def [symmetric] D_def [symmetric] by simp
qed

lemma get_sd_eval:
  assumes n: "n1 \<noteq> 0" "n2 \<noteq> 0" and v: "spec_v (spec_theta n1 n2) p1 p2 \<delta> \<noteq> 0"
    and root: "spec_a (spec_theta n1 n2) * x ^ 3 + spec_b (spec_theta n1 n2) p1 p2 \<delta> * x\<^sup>2
                 + spec_c (spec_theta n1 n2) p1 p2 \<delta> * x + spec_d p1 \<delta> = 0"
    and inside: "(x + spec_b (spec_theta n1 n2) p1 p2 \<delta> / (3 * spec_a (spec_theta n1 n2)))\<^sup>2
                 \<le> spec_disc (spec_theta n1 n2) p1 p2 \<delta>"
    and rad: "0 \<le> x * (1 - x) / real n1 + (x - \<delta>) * (1 - (x - \<delta>)) / real n2"
  shows "get_sd_diff_ML_null n1 n2 (Fin p1) (Fin p2) (Fin \<delta>)
         = Inr (Fin (sqrt (x * (1 - x) / real n1 + (x - \<delta>) * (1 - (x - \<delta>)) / real n2)))"
proof -
  have \<theta>: "0 < spec_theta n1 n2" using n by (simp add: spec_theta_def)
  from rml_root_unique [OF \<theta> v root inside] rad show ?thesis
    by (simp add: get_sd_finite [OF n] Let_def spec_p2_null_def)
qed

section \<open>Exchanging the two groups\<close>

lemma swap_coeffs:
  assumes "\<theta> \<noteq> 0"
  shows "spec_a (1 / \<theta>) = spec_a \<theta> / \<theta>"
    and "spec_b (1 / \<theta>) p2 p1 (- \<delta>) = (spec_b \<theta> p1 p2 \<delta> + 3 * \<delta> * spec_a \<theta>) / \<theta>"
    and "spec_c (1 / \<theta>) p2 p1 (- \<delta>)
          = (spec_c \<theta> p1 p2 \<delta> + 2 * \<delta> * spec_b \<theta> p1 p2 \<delta> + 3 * \<delta>\<^sup>2 * spec_a \<theta>) / \<theta>"
    and "spec_d p2 (- \<delta>)
          = (spec_d p1 \<delta> + \<delta> * spec_c \<theta> p1 p2 \<delta> + \<delta>\<^sup>2 * spec_b \<theta> p1 p2 \<delta>
              + \<delta> ^ 3 * spec_a \<theta>) / \<theta>"
  using assms
  by (simp_all add: spec_a_def spec_b_def spec_c_def spec_d_def field_simps power2_eq_square
      power3_eq_cube)

lemma disc_shift_scale:
  fixes a b c k \<delta> :: real
  assumes "a \<noteq> 0" "k \<noteq> 0"
  shows "((b + 3 * \<delta> * a) / k)\<^sup>2 / (9 * (a / k)\<^sup>2)
           - ((c + 2 * \<delta> * b + 3 * \<delta>\<^sup>2 * a) / k) / (3 * (a / k))
         = b\<^sup>2 / (9 * a\<^sup>2) - c / (3 * a)"
  using assms by (simp add: field_simps power2_eq_square)

lemma v_shift_scale:
  fixes a b c d k \<delta> :: real
  assumes "a \<noteq> 0" "k \<noteq> 0"
  shows "((b + 3 * \<delta> * a) / k) ^ 3 / (27 * (a / k) ^ 3)
           - ((b + 3 * \<delta> * a) / k) * ((c + 2 * \<delta> * b + 3 * \<delta>\<^sup>2 * a) / k) / (6 * (a / k)\<^sup>2)
           + ((d + \<delta> * c + \<delta>\<^sup>2 * b + \<delta> ^ 3 * a) / k) / (2 * (a / k))
         = b ^ 3 / (27 * a ^ 3) - b * c / (6 * a\<^sup>2) + d / (2 * a)"
  using assms by (simp add: field_simps power2_eq_square power3_eq_cube)

lemma shift_shift_scale:
  fixes a b k \<delta> :: real
  assumes "a \<noteq> 0" "k \<noteq> 0"
  shows "((b + 3 * \<delta> * a) / k) / (3 * (a / k)) = b / (3 * a) + \<delta>"
  using assms by (simp add: field_simps)

section \<open>The standard normal distribution function\<close>

lemma ncdf_coeff_even [simp]: "even n \<Longrightarrow> ncdf_coeff n = 0"
  by (simp add: ncdf_coeff_def)

lemma ncdf_series_sums:
  "(\<lambda>n. ncdf_coeff n * x ^ n) sums (\<Sum>k. (- 1) ^ k * x ^ (2 * k + 1) / (2 ^ k * fact k * real (2 * k + 1)))"
proof -
  let ?g = "\<lambda>k. (- 1) ^ k * x ^ (2 * k + 1) / (2 ^ k * fact k * real (2 * k + 1))"
  have "summable ?g"
  proof (rule summable_comparison_test')
    show "summable (\<lambda>k. \<bar>x\<bar> * (inverse (fact k) * (x\<^sup>2 / 2) ^ k))"
      by (intro summable_mult summable_exp)
    show "norm (?g k) \<le> \<bar>x\<bar> * (inverse (fact k) * (x\<^sup>2 / 2) ^ k)" if "0 \<le> k" for k
    proof -
      have "norm (?g k) = \<bar>x\<bar> * (inverse (fact k) * (x\<^sup>2 / 2) ^ k) / real (2 * k + 1)"
        by (simp add: abs_mult power_abs power_mult power_divide divide_simps)
      also have "\<dots> \<le> \<bar>x\<bar> * (inverse (fact k) * (x\<^sup>2 / 2) ^ k) / 1"
        by (intro divide_left_mono mult_nonneg_nonneg) simp_all
      finally show ?thesis by simp
    qed
  qed
  then have "?g sums suminf ?g" by (rule summable_sums)
  then have "(\<lambda>n. if even n then 0 else ?g ((n - 1) div 2)) sums suminf ?g"
    by (rule sums_if')
  moreover have "(\<lambda>n. if even n then 0 else ?g ((n - 1) div 2)) = (\<lambda>n. ncdf_coeff n * x ^ n)"
  proof
    fix n
    show "(if even n then 0 else ?g ((n - 1) div 2)) = ncdf_coeff n * x ^ n"
    proof (cases "even n")
      case True then show ?thesis by simp
    next
      case False
      then obtain k where "n = 2 * k + 1" by (auto elim: oddE)
      then show ?thesis by (simp add: ncdf_coeff_def)
    qed
  qed
  ultimately show ?thesis by simp
qed

lemma ncdf_summable: "summable (\<lambda>n. ncdf_coeff n * x ^ n)"
  using ncdf_series_sums by (rule sums_summable)

lemma diffs_ncdf_coeff:
  "diffs ncdf_coeff n = (if even n then (- 1 / 2) ^ (n div 2) / fact (n div 2) else 0)"
proof (cases "even n")
  case True
  then obtain k where "n = 2 * k" by (auto elim: evenE)
  then show ?thesis
    by (simp add: diffs_def ncdf_coeff_def power_divide power_minus_Bit0 del: of_nat_Suc)
       (simp add: field_simps power_minus')
next
  case False
  then show ?thesis by (simp add: diffs_def)
qed


lemma diffs_ncdf_sums: "(\<lambda>n. diffs ncdf_coeff n * x ^ n) sums exp (- (x\<^sup>2 / 2))"
proof -
  let ?h = "\<lambda>k. (- (x\<^sup>2 / 2)) ^ k /\<^sub>R fact k"
  have "?h sums exp (- (x\<^sup>2 / 2))" by (rule exp_converges)
  from sums_if [OF sums_zero this]
  have "(\<lambda>n. if even n then ?h (n div 2) else 0) sums exp (- (x\<^sup>2 / 2))" by simp
  moreover have "(\<lambda>n. if even n then ?h (n div 2) else 0) = (\<lambda>n. diffs ncdf_coeff n * x ^ n)"
  proof
    fix n
    show "(if even n then ?h (n div 2) else 0) = diffs ncdf_coeff n * x ^ n"
    proof (cases "even n")
      case True
      then obtain k where n: "n = 2 * k" by (auto elim: evenE)
      have "- (x\<^sup>2 / 2) = (- 1 / 2) * x\<^sup>2" by simp
      then have "(- (x\<^sup>2 / 2)) ^ k = ((- 1 / 2) * x\<^sup>2) ^ k" by (rule arg_cong)
      also have "\<dots> = (- 1 / 2) ^ k * (x\<^sup>2) ^ k" by (rule power_mult_distrib)
      also have "(x\<^sup>2) ^ k = x ^ (2 * k)" by (rule power_mult [symmetric])
      finally have "?h k = inverse (fact k) * ((- 1 / 2) ^ k * x ^ (2 * k))"
        by (simp only: real_scaleR_def)
      also have "\<dots> = (- 1 / 2) ^ k / fact k * x ^ (2 * k)"
        by (simp only: divide_inverse mult_ac)
      finally have "?h k = (- 1 / 2) ^ k / fact k * x ^ (2 * k)" .
      moreover have "diffs ncdf_coeff (2 * k) = (- 1 / 2) ^ k / fact k"
        by (simp add: diffs_ncdf_coeff)
      ultimately show ?thesis unfolding n by simp
    next
      case False
      then show ?thesis by (simp add: diffs_ncdf_coeff)
    qed
  qed
  ultimately show ?thesis by simp
qed

lemma DERIV_std_normal_cdf:
  "DERIV std_normal_cdf x :> exp (- (x\<^sup>2 / 2)) / sqrt (2 * pi)"
proof -
  have "DERIV (\<lambda>x. \<Sum>n. ncdf_coeff n * x ^ n) x :> (\<Sum>n. diffs ncdf_coeff n * x ^ n)"
    by (rule termdiffs_strong_converges_everywhere) (rule ncdf_summable)
  moreover have "(\<Sum>n. diffs ncdf_coeff n * x ^ n) = exp (- (x\<^sup>2 / 2))"
    using diffs_ncdf_sums by (rule sums_unique [symmetric])
  ultimately have "DERIV (\<lambda>x. \<Sum>n. ncdf_coeff n * x ^ n) x :> exp (- (x\<^sup>2 / 2))" by simp
  then have "DERIV (\<lambda>x. 1 / 2 + (\<Sum>n. ncdf_coeff n * x ^ n) / sqrt (2 * pi)) x
               :> 0 + exp (- (x\<^sup>2 / 2)) / sqrt (2 * pi)"
    by (intro DERIV_add DERIV_const DERIV_cdivide)
  then show ?thesis by (simp add: std_normal_cdf_def [abs_def])
qed

lemma std_normal_cdf_0: "std_normal_cdf 0 = 1 / 2"
proof -
  have "(\<lambda>n. ncdf_coeff n * 0 ^ n) = (\<lambda>n. 0)"
    by (rule ext) (simp add: ncdf_coeff_def power_0_left)
  then show ?thesis by (simp add: std_normal_cdf_def)
qed

lemma std_normal_cdf_strict_mono:
  assumes "x < y"
  shows "std_normal_cdf x < std_normal_cdf y"
proof (rule DERIV_pos_imp_increasing [OF assms])
  fix t :: real
  have "0 < exp (- (t\<^sup>2 / 2)) / sqrt (2 * pi)" by (intro divide_pos_pos) simp_all
  with DERIV_std_normal_cdf [of t] show "\<exists>d. DERIV std_normal_cdf t :> d \<and> 0 < d" by blast
qed

lemma std_normal_cdf_less_iff: "std_normal_cdf x < std_normal_cdf y \<longleftrightarrow> x < y"
proof
  assume *: "std_normal_cdf x < std_normal_cdf y"
  show "x < y"
  proof (rule ccontr)
    assume "\<not> x < y"
    then consider "x = y" | "y < x" by linarith
    then show False using * std_normal_cdf_strict_mono [of y x]
      by cases auto
  qed
qed (rule std_normal_cdf_strict_mono)

lemma std_normal_cdf_minus: "std_normal_cdf (- x) = 1 - std_normal_cdf x"
proof -
  have "(\<lambda>n. ncdf_coeff n * (- x) ^ n) = (\<lambda>n. - (ncdf_coeff n * x ^ n))"
  proof
    fix n
    show "ncdf_coeff n * (- x) ^ n = - (ncdf_coeff n * x ^ n)"
      by (cases "even n") simp_all
  qed
  then have "(\<Sum>n. ncdf_coeff n * (- x) ^ n) = - (\<Sum>n. ncdf_coeff n * x ^ n)"
    by (simp add: suminf_minus [OF ncdf_summable])
  then show ?thesis by (simp add: std_normal_cdf_def)
qed

lemma sqrt_2pi_bounds: "2 \<le> sqrt (2 * pi)" "sqrt (2 * pi) < 2 * sqrt 2"
proof -
  have "sqrt 4 \<le> sqrt (2 * pi)" using pi_ge_two by (intro real_sqrt_le_mono) simp
  then show "2 \<le> sqrt (2 * pi)" by simp
  have "sqrt (2 * pi) < sqrt 8" using pi_less_4 by (intro real_sqrt_less_mono) simp
  also have "sqrt 8 = 2 * sqrt 2"
    by (rule real_sqrt_unique) (simp_all add: power2_eq_square)
  finally show "sqrt (2 * pi) < 2 * sqrt 2" .
qed

lemma std_normal_cdf_lower:
  assumes "0 \<le> x"
  shows "1 / 2 + (x - x ^ 3 / 6) / sqrt (2 * pi) \<le> std_normal_cdf x"
proof -
  define k where "k = 1 / sqrt (2 * pi)"
  have k: "0 < k" by (simp add: k_def)
  let ?f = "\<lambda>t. std_normal_cdf t - k * (t - t ^ 3 / 6)"
  have "?f 0 \<le> ?f x"
  proof (rule DERIV_nonneg_imp_nondecreasing [OF assms])
    fix t :: real
    have "DERIV std_normal_cdf t :> k * exp (- (t\<^sup>2 / 2))"
      using DERIV_std_normal_cdf [of t] by (simp add: k_def)
    moreover have "DERIV (\<lambda>t. k * (t - t ^ 3 / 6)) t :> k * (1 - t\<^sup>2 / 2)"
      by (auto intro!: derivative_eq_intros)
    ultimately have "DERIV ?f t :> k * exp (- (t\<^sup>2 / 2)) - k * (1 - t\<^sup>2 / 2)"
      by (rule DERIV_diff)
    moreover have "1 + (- (t\<^sup>2 / 2)) \<le> exp (- (t\<^sup>2 / 2))" by (rule exp_ge_add_one_self)
    then have "k * (1 - t\<^sup>2 / 2) \<le> k * exp (- (t\<^sup>2 / 2))"
      using k by (intro mult_left_mono) simp_all
    then have "0 \<le> k * exp (- (t\<^sup>2 / 2)) - k * (1 - t\<^sup>2 / 2)" by simp
    ultimately show "\<exists>d. DERIV ?f t :> d \<and> 0 \<le> d" by blast
  qed
  then have "1 / 2 \<le> std_normal_cdf x - k * (x - x ^ 3 / 6)" by (simp add: std_normal_cdf_0)
  moreover have "k * (x - x ^ 3 / 6) = (x - x ^ 3 / 6) / sqrt (2 * pi)" by (simp add: k_def)
  ultimately show ?thesis by linarith
qed

lemma std_normal_cdf_upper:
  assumes "0 \<le> x"
  shows "std_normal_cdf x \<le> 1 / 2 + x / sqrt (2 * pi)"
proof -
  define k where "k = 1 / sqrt (2 * pi)"
  have k: "0 < k" by (simp add: k_def)
  let ?f = "\<lambda>t. std_normal_cdf t - k * t"
  have "?f x \<le> ?f 0"
  proof (rule DERIV_nonpos_imp_nonincreasing [OF assms])
    fix t :: real
    have "DERIV std_normal_cdf t :> k * exp (- (t\<^sup>2 / 2))"
      using DERIV_std_normal_cdf [of t] by (simp add: k_def)
    moreover have "DERIV (\<lambda>t. k * t) t :> k * 1"
      by (auto intro!: derivative_eq_intros)
    ultimately have "DERIV ?f t :> k * exp (- (t\<^sup>2 / 2)) - k * 1"
      by (rule DERIV_diff)
    moreover have "k * exp (- (t\<^sup>2 / 2)) \<le> k * 1"
      using k by (intro mult_left_mono) simp_all
    then have "k * exp (- (t\<^sup>2 / 2)) - k * 1 \<le> 0" by simp
    ultimately show "\<exists>d. DERIV ?f t :> d \<and> d \<le> 0" by blast
  qed
  then have "std_normal_cdf x - k * x \<le> 1 / 2" by (simp add: std_normal_cdf_0)
  moreover have "k * x = x / sqrt (2 * pi)" by (simp add: k_def)
  ultimately show ?thesis by linarith
qed

lemma py_min_Fin [simp]: "py_min (Fin a) (Fin b) = Fin (min a b)"
  by (simp add: py_min_def min_def)

lemma tail_min: "min (1 - std_normal_cdf z) (std_normal_cdf z) = std_normal_cdf (- \<bar>z\<bar>)"
proof (cases "0 \<le> z")
  case True
  then have "std_normal_cdf (- z) \<le> std_normal_cdf z"
    using std_normal_cdf_strict_mono [of "- z" z] by (cases "z = 0") auto
  with True show ?thesis by (simp add: std_normal_cdf_minus min_def)
next
  case False
  then have "std_normal_cdf z < std_normal_cdf (- z)"
    by (intro std_normal_cdf_strict_mono) simp
  with False show ?thesis by (simp add: std_normal_cdf_minus min_def)
qed

lemma tail_bound:
  assumes "sqrt 2 \<le> z"
  shows "std_normal_cdf (- z) < 1 / 6"
proof -
  define K where "K = sqrt (2 * pi)"
  define s where "s = 2 * sqrt 2 / 3"
  have K: "0 < K" "K < 2 * sqrt 2" using sqrt_2pi_bounds(2) by (simp_all add: K_def)
  have s: "0 < s" by (simp add: s_def)
  have "sqrt 2 - sqrt 2 ^ 3 / 6 = s" by (simp add: power3_eq_cube s_def)
  moreover have "1 / 2 + (sqrt 2 - sqrt 2 ^ 3 / 6) / sqrt (2 * pi) \<le> std_normal_cdf (sqrt 2)"
    by (rule std_normal_cdf_lower) simp
  ultimately have low: "1 / 2 + s / K \<le> std_normal_cdf (sqrt 2)" by (simp add: K_def)
  have "s / (2 * sqrt 2) < s / K"
    using K s by (intro divide_strict_left_mono mult_pos_pos) simp_all
  moreover have "s / (2 * sqrt 2) = 1 / 3" by (simp add: s_def)
  ultimately have "5 / 6 < std_normal_cdf (sqrt 2)" using low by linarith
  then have "std_normal_cdf (- sqrt 2) < 1 / 6" by (simp add: std_normal_cdf_minus)
  moreover have "std_normal_cdf (- z) \<le> std_normal_cdf (- sqrt 2)"
    using assms std_normal_cdf_strict_mono [of "- z" "- sqrt 2"] by (cases "z = sqrt 2") auto
  ultimately show ?thesis by linarith
qed

lemma get_ci_Fin:
  assumes "sd \<noteq> 0"
  shows "get_ci (Fin x) (Fin d) (Fin sd) (Fin \<alpha>) = Fin (2 * std_normal_cdf (- \<bar>(d - x) / sd\<bar>) - \<alpha>)"
  using assms by (simp add: get_ci_def get_z_def Let_def tail_min)

section \<open>The root finder of the examples and a run of the entry point\<close>

lemma midpoint_finder_in_bracket: "in_bracket midpoint_finder"
  unfolding in_bracket_def
proof (intro allI impI)
  fix f a b r
  assume *: "midpoint_finder f a b = Inr r"
  then obtain x y where ab: "a = Fin x" "b = Fin y"
    by (cases a; cases b) (simp_all add: midpoint_finder_def Let_def split: if_splits)
  from * have "r = a \<or> r = b \<or> r = Fin ((x + y) / 2)"
    by (auto simp: midpoint_finder_def ab Let_def split: if_splits)
  then show "(fle a r \<and> fle r b) \<or> (fle b r \<and> fle r a)"
    unfolding ab by (elim disjE) auto
qed

lemma midpoint_finder_sign_change:
  assumes "f (Fin a) = Fin x" "f (Fin b) = Fin y" "x * y < 0"
  shows "midpoint_finder f (Fin a) (Fin b) = Inr (Fin ((a + b) / 2))"
  using assms by (auto simp: midpoint_finder_def Let_def)

lemma midpoint_finder_same_sign:
  assumes "f (Fin a) = Fin x" "f (Fin b) = Fin y" "0 < x * y"
  shows "midpoint_finder f (Fin a) (Fin b) = Inl sign_error"
  using assms by (auto simp: midpoint_finder_def Let_def)

lemma ci_target_far:
  assumes "0 < sd" "2 * sd\<^sup>2 \<le> (d - x)\<^sup>2"
  shows "2 * std_normal_cdf (- \<bar>(d - x) / sd\<bar>) < 1 / 3"
proof -
  have "sqrt (2 * sd\<^sup>2) \<le> sqrt ((d - x)\<^sup>2)" using assms(2) by (rule real_sqrt_le_mono)
  then have "sqrt 2 * sd \<le> \<bar>d - x\<bar>" using assms(1) by (simp add: real_sqrt_mult)
  then have "sqrt 2 \<le> \<bar>d - x\<bar> / sd" using assms(1) by (simp add: field_simps)
  then have "sqrt 2 \<le> \<bar>(d - x) / sd\<bar>" using assms(1) by simp
  from tail_bound [OF this] show ?thesis by simp
qed

lemma midpoint_finder_ci:
  assumes "0 < sd" "1 / 3 \<le> \<alpha>" "\<alpha> < 1" "2 * sd\<^sup>2 \<le> (d - x)\<^sup>2"
  shows "midpoint_finder (\<lambda>t. get_ci t (Fin d) (Fin sd) (Fin \<alpha>)) (Fin x) (Fin d)
           = Inr (Fin ((x + d) / 2))"
    and "midpoint_finder (\<lambda>t. get_ci t (Fin d) (Fin sd) (Fin \<alpha>)) (Fin d) (Fin x)
           = Inr (Fin ((d + x) / 2))"
proof -
  let ?f = "\<lambda>t. get_ci t (Fin d) (Fin sd) (Fin \<alpha>)"
  have sd: "sd \<noteq> 0" using assms(1) by simp
  have fd: "?f (Fin d) = Fin (1 - \<alpha>)"
    by (simp add: get_ci_Fin [OF sd] std_normal_cdf_0)
  have fx: "?f (Fin x) = Fin (2 * std_normal_cdf (- \<bar>(d - x) / sd\<bar>) - \<alpha>)"
    by (rule get_ci_Fin [OF sd])
  have neg: "2 * std_normal_cdf (- \<bar>(d - x) / sd\<bar>) - \<alpha> < 0"
    using ci_target_far [OF assms(1,4)] assms(2) by linarith
  have pos: "0 < 1 - \<alpha>" using assms(3) by simp
  have 1: "(2 * std_normal_cdf (- \<bar>(d - x) / sd\<bar>) - \<alpha>) * (1 - \<alpha>) < 0"
    using neg pos by (rule mult_neg_pos)
  then have 2: "(1 - \<alpha>) * (2 * std_normal_cdf (- \<bar>(d - x) / sd\<bar>) - \<alpha>) < 0"
    by (simp add: mult.commute)
  show "midpoint_finder ?f (Fin x) (Fin d) = Inr (Fin ((x + d) / 2))"
    using fx fd 1 by (rule midpoint_finder_sign_change)
  show "midpoint_finder ?f (Fin d) (Fin x) = Inr (Fin ((d + x) / 2))"
    using fd fx 2 by (rule midpoint_finder_sign_change)
qed

lemma example_sd:
  "get_sd_diff_ML_null 3 3 (Fin (1 / 3)) (Fin 0) (Fin 0) = Inr (Fin (sqrt (5 / 54)))"
proof -
  have "get_sd_diff_ML_null 3 3 (Fin (1 / 3)) (Fin 0) (Fin 0)
         = Inr (Fin (sqrt ((1/6) * (1 - 1/6) / real 3 + (1/6 - 0) * (1 - (1/6 - 0)) / real 3)))"
    by (rule get_sd_eval)
      (simp_all add: spec_theta_def spec_a_def spec_b_def spec_c_def spec_d_def spec_v_def
        spec_disc_def Let_def power2_eq_square power3_eq_cube)
  then show ?thesis by simp
qed

lemma example_run:
  "farrington_manning midpoint_finder [True, False, False] [False, False, False] (Fin 0)
     ''greater'' (Fin (1 / 5))
   = Inr \<lparr>rate_difference = Fin (1 / 3),
          z_statistic = Fin ((1 / 3) / sqrt (5 / 54)),
          p_value = Fin (1 - std_normal_cdf ((1 / 3) / sqrt (5 / 54))),
          ci = [Fin ((- 1 + 1 / 10 ^ 6 + 1 / 3) / 2), Fin ((1 / 3 + (1 - 1 / 10 ^ 6)) / 2)]\<rparr>"
proof -
  have sd: "0 < sqrt (5 / 54 :: real)" by simp
  have lo: "2 * (sqrt (5 / 54))\<^sup>2 \<le> (1 / 3 - (- 1 + 1 / 10 ^ 6))\<^sup>2"
    by (simp add: power2_eq_square)
  have hi: "2 * (sqrt (5 / 54))\<^sup>2 \<le> (1 / 3 - (1 - 1 / 10 ^ 6))\<^sup>2"
    by (simp add: power2_eq_square)
  have \<alpha>: "(1 :: real) / 3 \<le> 2 * (1 / 5)" "2 * (1 / 5) < (1 :: real)" by simp_all
  note l = midpoint_finder_ci(1) [OF sd \<alpha> lo]
  note h = midpoint_finder_ci(2) [OF sd \<alpha> hi]
  note s = example_sd [unfolded numeral_3_eq_3]
  show ?thesis
    using l h
    by (simp add: farrington_manning_def casefold_greater np_mean_def int_of_val_def Let_def
        s get_z_def)
qed

section \<open>The alternative argument\<close>

lemma casefold_GREATER: "casefold ''GREATER'' = ''greater''"
  by code_simp

lemma casefold_bogus: "casefold ''bogus'' = ''bogus''"
  by code_simp

lemma casefold_Less: "casefold ''Less'' = ''less''"
  by code_simp

lemma is_ascii_bogus: "is_ascii ''bogus''"
  by code_simp

lemma fm_casefold_cong:
  assumes "casefold b = casefold c"
  shows "farrington_manning brentq group1 group2 delta b alpha
         = farrington_manning brentq group1 group2 delta c alpha"
  by (simp add: farrington_manning_def assms)

text \<open>
  Claim C8.  The entry point looks at the alternative only through \<open>casefold\<close>: two
  alternatives with the same case-folded form give the same outcome, so \<open>GREATER\<close>
  behaves as \<open>greater\<close>.  When the case-folded form of an ASCII alternative is none of
  \<open>two-sided\<close>, \<open>greater\<close> and \<open>less\<close>, the call fails with the \<open>ValueError\<close> of the
  alternative, whatever the groups, delta, alpha and the root finder are: the check comes
  before the group lengths are divided and before any other numeric step, and no result is
  returned.
\<close>

theorem C8_alternative_casefold:
  "(is_ascii a \<and> casefold a \<notin> set [''two-sided'', ''greater'', ''less'']
      \<longrightarrow> farrington_manning brentq group1 group2 delta a alpha = Inl alternative_error)
   \<and> (casefold b = casefold c
      \<longrightarrow> farrington_manning brentq group1 group2 delta b alpha
          = farrington_manning brentq group1 group2 delta c alpha)
   \<and> farrington_manning brentq group1 group2 delta ''GREATER'' alpha
       = farrington_manning brentq group1 group2 delta ''greater'' alpha"
proof (intro conjI impI)
  assume "is_ascii a \<and> casefold a \<notin> set [''two-sided'', ''greater'', ''less'']"
  then show "farrington_manning brentq group1 group2 delta a alpha = Inl alternative_error"
    by (simp add: farrington_manning_def)
next
  assume "casefold b = casefold c"
  then show "farrington_manning brentq group1 group2 delta b alpha
             = farrington_manning brentq group1 group2 delta c alpha"
    by (rule fm_casefold_cong)
next
  show "farrington_manning brentq group1 group2 delta ''GREATER'' alpha
        = farrington_manning brentq group1 group2 delta ''greater'' alpha"
    by (rule fm_casefold_cong) (simp add: casefold_GREATER casefold_greater)
qed

theorem C8_witness:
  "is_ascii ''bogus'' \<and> casefold ''bogus'' \<notin> set [''two-sided'', ''greater'', ''less'']
   \<and> farrington_manning midpoint_finder [] [] NaN ''bogus'' NaN = Inl alternative_error
   \<and> casefold ''Less'' = casefold ''less''
   \<and> farrington_manning midpoint_finder [True, False, False] [False, False, False] (Fin 0)
        ''Less'' (Fin (1 / 5))
      = farrington_manning midpoint_finder [True, False, False] [False, False, False] (Fin 0)
        ''less'' (Fin (1 / 5))
   \<and> farrington_manning midpoint_finder [True, False, False] [False, False, False] (Fin 0)
        ''GREATER'' (Fin (1 / 5))
      = farrington_manning midpoint_finder [True, False, False] [False, False, False] (Fin 0)
        ''greater'' (Fin (1 / 5))"
proof -
  have 0: "is_ascii ''bogus''" by (rule is_ascii_bogus)
  have 1: "casefold ''bogus'' \<notin> set [''two-sided'', ''greater'', ''less'']"
    by (simp add: casefold_bogus)
  have 2: "casefold ''Less'' = casefold ''less''"
    by (simp add: casefold_Less casefold_less)
  note t = C8_alternative_casefold [of "''bogus''" midpoint_finder "[]" "[]" NaN NaN
      "''Less''" "''less''"]
  note u = C8_alternative_casefold [of "''bogus''" midpoint_finder "[True, False, False]"
      "[False, False, False]" "Fin 0" "Fin (1 / 5)" "''Less''" "''less''"]
  from 0 1 2 t u show ?thesis by blast
qed

section \<open>Failures of the restricted maximum-likelihood solver\<close>

lemma get_sd_zero_v:
  assumes "n1 \<noteq> 0" "n2 \<noteq> 0" "spec_v (spec_theta n1 n2) p1 p2 \<delta> = 0"
    "0 \<le> spec_disc (spec_theta n1 n2) p1 p2 \<delta>"
  shows "spec_u (spec_theta n1 n2) p1 p2 \<delta> = 0"
    and "get_sd_diff_ML_null n1 n2 (Fin p1) (Fin p2) (Fin \<delta>) = Inr NaN"
proof -
  show u: "spec_u (spec_theta n1 n2) p1 p2 \<delta> = 0"
    using assms(3) by (simp add: spec_u_def)
  show "get_sd_diff_ML_null n1 n2 (Fin p1) (Fin p2) (Fin \<delta>) = Inr NaN"
    using assms u by (simp add: get_sd_finite Let_def)
qed

text \<open>
  Claim C3, as amended.  For two groups of the same size \<open>n > 0\<close> with observed
  proportions 1/2 and delta 0, the quantity \<open>v\<close> is exactly zero, so \<open>u = sign(v) * sqrt(...)\<close>
  is zero and \<open>v / u ** 3\<close> is the division 0/0.  The division is not guarded.  It is a
  NumPy division, so it raises nothing: its value is NaN, NaN passes through \<open>acos\<close>,
  \<open>cos\<close> and \<open>sqrt\<close>, and the solver returns NaN instead of a standard error.
\<close>

theorem C3_zero_v_returns_nan:
  assumes "0 < n"
  shows "spec_v (spec_theta n n) (1 / 2) (1 / 2) 0 = 0
         \<and> spec_u (spec_theta n n) (1 / 2) (1 / 2) 0 = 0
         \<and> get_sd_diff_ML_null n n (Fin (1 / 2)) (Fin (1 / 2)) (Fin 0) = Inr NaN"
proof -
  have \<theta>: "spec_theta n n = 1" using assms by (simp add: spec_theta_def)
  have v: "spec_v (spec_theta n n) (1 / 2) (1 / 2) 0 = 0"
    by (simp add: \<theta> spec_v_def spec_a_def spec_b_def spec_c_def spec_d_def Let_def
        power2_eq_square power3_eq_cube)
  have D: "0 \<le> spec_disc (spec_theta n n) (1 / 2) (1 / 2) 0"
    by (simp add: \<theta> spec_disc_def spec_a_def spec_b_def spec_c_def Let_def power2_eq_square)
  have n: "n \<noteq> 0" using assms by simp
  from v get_sd_zero_v [OF n n v D] show ?thesis by simp
qed

theorem C3_witness:
  "(0 :: nat) < 2
   \<and> spec_v (spec_theta 2 2) (1 / 2) (1 / 2) 0 = 0
   \<and> spec_u (spec_theta 2 2) (1 / 2) (1 / 2) 0 = 0
   \<and> get_sd_diff_ML_null 2 2 (Fin (1 / 2)) (Fin (1 / 2)) (Fin 0) = Inr NaN"
  using C3_zero_v_returns_nan [of 2] by simp

theorem C3_counterexample:
  "get_sd_diff_ML_null 1 1 (Fin (1 / 2)) (Fin (1 / 2)) (Fin 0) = Inr NaN
   \<and> get_sd_diff_ML_null 1 1 (Fin (1 / 2)) (Fin (1 / 2)) (Fin 0)
       \<noteq> Inl (ZeroDivisionError ''division by zero'')"
  by (simp add: get_sd_diff_ML_null_def int_truediv_def Let_def eval_nat_numeral)









text \<open>
  Claim C6.  The claim asks, for every valid input, for the standard error of the
  restricted estimate.  With one observation in each group, observed proportions 0 and 1
  and delta 0 the restricted estimate exists: the cubic has the root 1/2, between 0 and 1,
  and the standard error there is \<open>sqrt (1/2)\<close>.  The code does not return it.  At this
  input \<open>v\<close> is zero, so \<open>sign(v)\<close> makes \<open>u\<close> zero, \<open>v / u ** 3\<close> is 0/0, and the solver
  returns NaN.  Every intermediate value at this input is a small dyadic number, so the
  run is the same in double precision.
\<close>

theorem C6_solver_returns_nan_on_valid_input:
  "spec_v (spec_theta 1 1) 0 1 0 = 0
   \<and> spec_u (spec_theta 1 1) 0 1 0 = 0
   \<and> spec_a (spec_theta 1 1) * (1 / 2) ^ 3 + spec_b (spec_theta 1 1) 0 1 0 * (1 / 2)\<^sup>2
       + spec_c (spec_theta 1 1) 0 1 0 * (1 / 2) + spec_d 0 0 = 0
   \<and> sqrt ((1 / 2) * (1 - 1 / 2) / real 1 + (1 / 2 - 0) * (1 - (1 / 2 - 0)) / real 1)
       = sqrt (1 / 2)
   \<and> get_sd_diff_ML_null (length [False]) (length [True]) (np_mean (map int_of_val [False]))
        (np_mean (map int_of_val [True])) (Fin 0) = Inr NaN
   \<and> get_sd_diff_ML_null (length [False]) (length [True]) (np_mean (map int_of_val [False]))
        (np_mean (map int_of_val [True])) (Fin 0) \<noteq> Inr (Fin (sqrt (1 / 2)))"
proof -
  have v: "spec_v (spec_theta 1 1) 0 1 0 = 0"
    by (simp add: spec_theta_def spec_v_def spec_a_def spec_b_def spec_c_def spec_d_def Let_def)
  have u: "spec_u (spec_theta 1 1) 0 1 0 = 0"
    unfolding spec_u_def v by simp
  have r: "spec_a (spec_theta 1 1) * (1 / 2) ^ 3 + spec_b (spec_theta 1 1) 0 1 0 * (1 / 2)\<^sup>2
       + spec_c (spec_theta 1 1) 0 1 0 * (1 / 2) + spec_d 0 0 = 0"
    by (simp add: spec_theta_def spec_a_def spec_b_def spec_c_def spec_d_def power2_eq_square
        power3_eq_cube)
  have s: "get_sd_diff_ML_null (length [False]) (length [True])
        (np_mean (map int_of_val [False])) (np_mean (map int_of_val [True])) (Fin 0) = Inr NaN"
    by (simp add: get_sd_diff_ML_null_def int_truediv_def Let_def eval_nat_numeral np_mean_def
        int_of_val_def)
  show ?thesis unfolding s using v u r by simp
qed

section \<open>Empty groups\<close>

lemma get_sd_empty_first:
  "get_sd_diff_ML_null 0 n2 p1_ml p2_ml delta = Inl (ZeroDivisionError ''division by zero'')"
  by (simp add: get_sd_diff_ML_null_def int_truediv_def)

lemma get_sd_empty_second:
  assumes "n1 \<noteq> 0"
  shows "get_sd_diff_ML_null n1 0 (Fin p1) NaN delta = Inr NaN"
  using assms
  by (simp add: get_sd_diff_ML_null_def int_truediv_def Let_def eval_nat_numeral)

lemma np_mean_nonempty:
  assumes "g \<noteq> []"
  shows "np_mean (map int_of_val g)
         = Fin (real_of_int (sum_list (map int_of_val g)) / real (length g))"
  using assms by (simp add: np_mean_def)

lemma get_ci_NaN [simp]: "get_ci x NaN sd alpha_mod = NaN"
  by (simp add: get_ci_def get_z_def Let_def py_min_def)

lemma fm_empty_second:
  assumes "casefold alternative \<in> set [''two-sided'', ''greater'', ''less'']" "group1 \<noteq> []"
  shows "farrington_manning brentq group1 [] delta alternative alpha
          = py_bind (brentq (\<lambda>x. NaN) (Fin (- 1) + Fin (1 / 10 ^ 6)) NaN) (\<lambda>ci_lower.
            py_bind (brentq (\<lambda>x. NaN) NaN (Fin 1 - Fin (1 / 10 ^ 6))) (\<lambda>ci_upper.
            Inr \<lparr>rate_difference = NaN, z_statistic = NaN, p_value = NaN,
                 ci = [ci_lower, ci_upper]\<rparr>))"
proof -
  have n: "length group1 \<noteq> 0" using assms(2) by simp
  have m: "np_mean (map int_of_val []) = NaN" by (simp add: np_mean_def)
  show ?thesis
    using assms(1) unfolding farrington_manning_def Let_def m
      np_mean_nonempty [of group1, OF assms(2)]
    by (simp add: get_sd_empty_second [OF n] get_z_def py_min_def del: Fin_plus Fin_minus)
qed

lemma midpoint_finder_raises_on_nan: "raises_on_nan midpoint_finder"
  by (simp add: raises_on_nan_def midpoint_finder_def Let_def)

text \<open>
  Claim C2.  Every call with an empty group fails, and no result is returned.  With an
  empty first group (and a recognised alternative) the call ends with the
  \<open>ZeroDivisionError\<close> of \<open>theta = n2 / n1\<close>, for every second group, delta, alpha and root
  finder.  With an empty second group only, nothing is raised before the root search: the
  mean of the empty group is NaN, and so are the standard error, the statistic, the
  p-value and every value of the target of the search; the error that the root finder
  raises on that target at the first bracket is the outcome of the call.  \<open>brentq\<close> raises
  on a NaN value of the target, so with it each call with an empty group fails.
\<close>

theorem C2_empty_groups:
  "(casefold alternative \<in> set [''two-sided'', ''greater'', ''less'']
      \<longrightarrow> farrington_manning brentq [] group2 delta alternative alpha
          = Inl (ZeroDivisionError ''division by zero''))
   \<and> (casefold alternative \<in> set [''two-sided'', ''greater'', ''less''] \<and> group1 \<noteq> []
        \<and> brentq (\<lambda>x. NaN) (Fin (- 1) + Fin (1 / 10 ^ 6)) NaN = Inl e
      \<longrightarrow> farrington_manning brentq group1 [] delta alternative alpha = Inl e)
   \<and> ((group1 = [] \<or> group2 = []) \<and> raises_on_nan brentq
      \<longrightarrow> (\<exists>e'. farrington_manning brentq group1 group2 delta alternative alpha = Inl e'))"
proof -
  have 1: "farrington_manning brentq [] g2 delta alternative alpha
             = Inl (ZeroDivisionError ''division by zero'')"
    if "casefold alternative \<in> set [''two-sided'', ''greater'', ''less'']" for g2
    using that by (simp add: farrington_manning_def Let_def get_sd_empty_first)
  have 2: "farrington_manning brentq g1 [] delta alternative alpha = Inl e"
    if "casefold alternative \<in> set [''two-sided'', ''greater'', ''less'']" "g1 \<noteq> []"
      "brentq (\<lambda>x. NaN) (Fin (- 1) + Fin (1 / 10 ^ 6)) NaN = Inl e" for g1 e
    unfolding fm_empty_second [OF that(1,2)] that(3) by simp
  have 3: "\<exists>e'. farrington_manning brentq group1 group2 delta alternative alpha = Inl e'"
    if g: "group1 = [] \<or> group2 = []" and r: "raises_on_nan brentq"
  proof (cases "casefold alternative \<in> set [''two-sided'', ''greater'', ''less'']")
    case False
    then show ?thesis by (simp add: farrington_manning_def)
  next
    case True
    show ?thesis
    proof (cases "group1 = []")
      case e1: True
      with 1 [OF True] show ?thesis by blast
    next
      case ne: False
      with g have e2: "group2 = []" by simp
      have "\<exists>e'. brentq (\<lambda>x. NaN) (Fin (- 1) + Fin (1 / 10 ^ 6)) NaN = Inl e'"
        by (rule r [unfolded raises_on_nan_def, rule_format]) simp
      then obtain e' where "brentq (\<lambda>x. NaN) (Fin (- 1) + Fin (1 / 10 ^ 6)) NaN = Inl e'" ..
      from 2 [OF True ne this] e2 show ?thesis by blast
    qed
  qed
  show ?thesis
  proof (intro conjI impI)
    assume "casefold alternative \<in> set [''two-sided'', ''greater'', ''less'']"
    then show "farrington_manning brentq [] group2 delta alternative alpha
                 = Inl (ZeroDivisionError ''division by zero'')"
      by (rule 1)
  next
    assume a: "casefold alternative \<in> set [''two-sided'', ''greater'', ''less'']
                 \<and> group1 \<noteq> []
                 \<and> brentq (\<lambda>x. NaN) (Fin (- 1) + Fin (1 / 10 ^ 6)) NaN = Inl e"
    show "farrington_manning brentq group1 [] delta alternative alpha = Inl e"
      by (rule 2) (use a in simp_all)
  next
    assume a: "(group1 = [] \<or> group2 = []) \<and> raises_on_nan brentq"
    show "\<exists>e'. farrington_manning brentq group1 group2 delta alternative alpha = Inl e'"
      by (rule 3) (use a in simp_all)
  qed
qed

theorem C2_witness:
  "casefold ''two-sided'' \<in> set [''two-sided'', ''greater'', ''less'']
   \<and> farrington_manning midpoint_finder [] [True] (Fin 0) ''two-sided'' (Fin (1 / 20))
       = Inl (ZeroDivisionError ''division by zero'')
   \<and> [True] \<noteq> []
   \<and> midpoint_finder (\<lambda>x. NaN) (Fin (- 1) + Fin (1 / 10 ^ 6)) NaN = Inl nan_error
   \<and> farrington_manning midpoint_finder [True] [] (Fin 0) ''two-sided'' (Fin (1 / 20))
       = Inl nan_error
   \<and> raises_on_nan midpoint_finder
   \<and> (\<exists>e'. farrington_manning midpoint_finder [] [] (Fin 0) ''two-sided'' (Fin (1 / 20))
              = Inl e')"
proof -
  have c: "casefold ''two-sided'' \<in> set [''two-sided'', ''greater'', ''less'']"
    by (simp add: casefold_two_sided)
  have m: "midpoint_finder (\<lambda>x. NaN) (Fin (- 1) + Fin (1 / 10 ^ 6)) NaN = Inl nan_error"
    by (simp add: midpoint_finder_def)
  note a = C2_empty_groups [of "''two-sided''" midpoint_finder "[True]" "Fin 0" "Fin (1 / 20)"
      "[True]" nan_error]
  note b = C2_empty_groups [of "''two-sided''" midpoint_finder "[]" "Fin 0" "Fin (1 / 20)"
      "[]" nan_error]
  have 1: "farrington_manning midpoint_finder [] [True] (Fin 0) ''two-sided'' (Fin (1 / 20))
       = Inl (ZeroDivisionError ''division by zero'')"
    using a c by blast
  have 2: "farrington_manning midpoint_finder [True] [] (Fin 0) ''two-sided'' (Fin (1 / 20))
       = Inl nan_error"
    using a c m by blast
  have 3: "\<exists>e'. farrington_manning midpoint_finder [] [] (Fin 0) ''two-sided'' (Fin (1 / 20))
              = Inl e'"
    using b midpoint_finder_raises_on_nan by blast
  from c m 1 2 3 midpoint_finder_raises_on_nan show ?thesis by blast
qed

lemma fm_Inr_alternative:
  assumes "farrington_manning brentq group1 group2 delta alternative alpha = Inr r"
  shows "casefold alternative \<in> set [''two-sided'', ''greater'', ''less'']"
  using assms by (auto simp: farrington_manning_def split: if_splits)

lemma fm_valid_unfold:
  assumes "casefold alternative \<in> set [''two-sided'', ''greater'', ''less'']"
  shows "farrington_manning brentq group1 group2 delta alternative alpha =
     (let diff_ml = np_mean (map int_of_val group1) - np_mean (map int_of_val group2);
          alpha_mod = (if casefold alternative = ''two-sided'' then alpha else Fin 2 * alpha)
      in py_bind (get_sd_diff_ML_null (length group1) (length group2)
                    (np_mean (map int_of_val group1)) (np_mean (map int_of_val group2)) delta)
           (\<lambda>sd. py_bind (brentq (\<lambda>x. get_ci x diff_ml sd alpha_mod)
                             (Fin (- 1) + Fin (1 / 10 ^ 6)) diff_ml)
              (\<lambda>lo. py_bind (brentq (\<lambda>x. get_ci x diff_ml sd alpha_mod) diff_ml
                                (Fin 1 - Fin (1 / 10 ^ 6)))
                 (\<lambda>hi. Inr \<lparr>rate_difference = diff_ml,
                       z_statistic = get_z diff_ml delta sd,
                       p_value =
                         (if casefold alternative = ''two-sided''
                          then Fin 2 * py_min (norm_sf (get_z diff_ml delta sd))
                                 (norm_cdf (get_z diff_ml delta sd))
                          else if casefold alternative = ''greater''
                          then norm_sf (get_z diff_ml delta sd)
                          else norm_cdf (get_z diff_ml delta sd)),
                       ci = [lo, hi]\<rparr>))))"
proof -
  have "\<not> casefold alternative \<notin> set [''two-sided'', ''greater'', ''less'']"
    using assms by simp
  then show ?thesis
    unfolding farrington_manning_def Let_def by (simp only: if_False)
qed

lemma fm_Inr_D:
  assumes "farrington_manning brentq group1 group2 delta alternative alpha = Inr r"
  defines "diff_ml \<equiv> np_mean (map int_of_val group1) - np_mean (map int_of_val group2)"
  defines "alpha_mod \<equiv> (if casefold alternative = ''two-sided'' then alpha else Fin 2 * alpha)"
  shows "\<exists>sd lo hi.
           get_sd_diff_ML_null (length group1) (length group2) (np_mean (map int_of_val group1))
             (np_mean (map int_of_val group2)) delta = Inr sd
           \<and> brentq (\<lambda>x. get_ci x diff_ml sd alpha_mod) (Fin (- 1) + Fin (1 / 10 ^ 6)) diff_ml
               = Inr lo
           \<and> brentq (\<lambda>x. get_ci x diff_ml sd alpha_mod) diff_ml (Fin 1 - Fin (1 / 10 ^ 6))
               = Inr hi
           \<and> r = \<lparr>rate_difference = diff_ml,
                  z_statistic = get_z diff_ml delta sd,
                  p_value =
                    (if casefold alternative = ''two-sided''
                     then Fin 2 * py_min (norm_sf (get_z diff_ml delta sd))
                            (norm_cdf (get_z diff_ml delta sd))
                     else if casefold alternative = ''greater''
                     then norm_sf (get_z diff_ml delta sd)
                     else norm_cdf (get_z diff_ml delta sd)),
                  ci = [lo, hi]\<rparr>"
proof -
  note u = fm_valid_unfold [OF fm_Inr_alternative [OF assms(1)], of brentq group1 group2 delta
      alpha, unfolded Let_def, folded diff_ml_def alpha_mod_def]
  from assms(1) [unfolded u] show ?thesis
    unfolding py_bind_eq_Inr by blast
qed

section \<open>Statistic and p-value\<close>

text \<open>
  Claim C7.  In every result the entry point returns, the statistic is
  \<open>(diff_ml - delta) / sd_null\<close> with \<open>sd_null\<close> the value of the solver at the given
  delta, and the p-value is \<open>2 * min(norm.sf(z), norm.cdf(z))\<close> for the alternative
  \<open>two-sided\<close>, the upper tail \<open>norm.sf(z)\<close> for \<open>greater\<close> and the lower tail
  \<open>norm.cdf(z)\<close> for \<open>less\<close>.
\<close>

theorem C7_statistic_and_p_value:
  assumes "farrington_manning brentq group1 group2 delta alternative alpha = Inr r"
  shows "\<exists>sd. get_sd_diff_ML_null (length group1) (length group2)
                 (np_mean (map int_of_val group1)) (np_mean (map int_of_val group2)) delta = Inr sd
           \<and> rate_difference r
               = np_mean (map int_of_val group1) - np_mean (map int_of_val group2)
           \<and> z_statistic r = (rate_difference r - delta) / sd
           \<and> (casefold alternative = ''two-sided'' \<longrightarrow>
                p_value r = Fin 2 * py_min (norm_sf (z_statistic r)) (norm_cdf (z_statistic r)))
           \<and> (casefold alternative = ''greater'' \<longrightarrow> p_value r = norm_sf (z_statistic r))
           \<and> (casefold alternative = ''less'' \<longrightarrow> p_value r = norm_cdf (z_statistic r))"
proof -
  from fm_Inr_D [OF assms] obtain sd lo hi where
    sd: "get_sd_diff_ML_null (length group1) (length group2) (np_mean (map int_of_val group1))
           (np_mean (map int_of_val group2)) delta = Inr sd"
    and r: "r = \<lparr>rate_difference = np_mean (map int_of_val group1) - np_mean (map int_of_val group2),
        z_statistic = get_z (np_mean (map int_of_val group1) - np_mean (map int_of_val group2)) delta sd,
        p_value =
          (if casefold alternative = ''two-sided''
           then Fin 2 * py_min
                  (norm_sf (get_z (np_mean (map int_of_val group1) - np_mean (map int_of_val group2)) delta sd))
                  (norm_cdf (get_z (np_mean (map int_of_val group1) - np_mean (map int_of_val group2)) delta sd))
           else if casefold alternative = ''greater''
           then norm_sf (get_z (np_mean (map int_of_val group1) - np_mean (map int_of_val group2)) delta sd)
           else norm_cdf (get_z (np_mean (map int_of_val group1) - np_mean (map int_of_val group2)) delta sd)),
        ci = [lo, hi]\<rparr>"
    by blast
  from fm_Inr_alternative [OF assms]
  have c: "casefold alternative = ''two-sided'' \<or> casefold alternative = ''greater''
           \<or> casefold alternative = ''less''" by simp
  show ?thesis
    by (rule exI [of _ sd]) (use sd c in \<open>auto simp: r get_z_def\<close>)
qed

lemma fle_trans: "fle a b \<Longrightarrow> fle b c \<Longrightarrow> fle a c"
  by (cases a; cases b; cases c) simp_all

lemma fm_run:
  assumes alt: "casefold alternative \<in> set [''two-sided'', ''greater'', ''less'']"
    and m1: "np_mean (map int_of_val group1) = Fin p1"
    and m2: "np_mean (map int_of_val group2) = Fin p2"
    and sd: "get_sd_diff_ML_null (length group1) (length group2) (Fin p1) (Fin p2) (Fin \<delta>)
              = Inr (Fin s)"
    and s: "0 < s"
    and a: "(if casefold alternative = ''two-sided'' then alpha else Fin 2 * alpha) = Fin a"
      "1 / 3 \<le> a" "a < 1"
    and far: "2 * s\<^sup>2 \<le> (p1 - p2 - (- 1 + 1 / 10 ^ 6))\<^sup>2"
      "2 * s\<^sup>2 \<le> (p1 - p2 - (1 - 1 / 10 ^ 6))\<^sup>2"
  shows "farrington_manning midpoint_finder group1 group2 (Fin \<delta>) alternative alpha
         = Inr \<lparr>rate_difference = Fin (p1 - p2),
                z_statistic = Fin ((p1 - p2 - \<delta>) / s),
                p_value =
                  (if casefold alternative = ''two-sided''
                   then Fin (2 * min (1 - std_normal_cdf ((p1 - p2 - \<delta>) / s))
                                     (std_normal_cdf ((p1 - p2 - \<delta>) / s)))
                   else if casefold alternative = ''greater''
                   then Fin (1 - std_normal_cdf ((p1 - p2 - \<delta>) / s))
                   else Fin (std_normal_cdf ((p1 - p2 - \<delta>) / s))),
                ci = [Fin ((- 1 + 1 / 10 ^ 6 + (p1 - p2)) / 2),
                      Fin ((p1 - p2 + (1 - 1 / 10 ^ 6)) / 2)]\<rparr>"
proof -
  have s0: "s \<noteq> 0" using s by simp
  note l = midpoint_finder_ci(1) [OF s a(2,3) far(1)]
  note h = midpoint_finder_ci(2) [OF s a(2,3) far(2)]
  show ?thesis
    unfolding fm_valid_unfold [OF alt] Let_def m1 m2 a(1)
    using l h s0 by (simp add: sd get_z_def)
qed

section \<open>Exchanging the groups in the entry point\<close>

lemma swap_disc:
  assumes "0 < \<theta>"
  shows "spec_disc (1 / \<theta>) p2 p1 (- \<delta>) = spec_disc \<theta> p1 p2 \<delta>"
proof -
  have a: "spec_a \<theta> \<noteq> 0" "\<theta> \<noteq> 0" using assms by (simp_all add: spec_a_def)
  show ?thesis
    unfolding spec_disc_def Let_def swap_coeffs [OF a(2)]
    by (rule disc_shift_scale [OF a])
qed

lemma swap_v:
  assumes "0 < \<theta>"
  shows "spec_v (1 / \<theta>) p2 p1 (- \<delta>) = spec_v \<theta> p1 p2 \<delta>"
proof -
  have a: "spec_a \<theta> \<noteq> 0" "\<theta> \<noteq> 0" using assms by (simp_all add: spec_a_def)
  have d: "spec_d p2 (- \<delta>)
      = (spec_d p1 \<delta> + \<delta> * spec_c \<theta> p1 p2 \<delta> + \<delta>\<^sup>2 * spec_b \<theta> p1 p2 \<delta>
          + \<delta> ^ 3 * spec_a \<theta>) / \<theta>"
    using a(2) by (rule swap_coeffs(4))
  show ?thesis
    unfolding spec_v_def Let_def swap_coeffs(1-3) [OF a(2)] d
    by (rule v_shift_scale [OF a])
qed

lemma swap_u:
  assumes "0 < \<theta>"
  shows "spec_u (1 / \<theta>) p2 p1 (- \<delta>) = spec_u \<theta> p1 p2 \<delta>"
  by (simp only: spec_u_def swap_disc [OF assms] swap_v [OF assms])

lemma swap_p1_null:
  assumes "0 < \<theta>"
  shows "spec_p1_null (1 / \<theta>) p2 p1 (- \<delta>) = spec_p2_null \<theta> p1 p2 \<delta>"
proof -
  have a: "spec_a \<theta> \<noteq> 0" "\<theta> \<noteq> 0" using assms by (simp_all add: spec_a_def)
  have "spec_b (1 / \<theta>) p2 p1 (- \<delta>) / (3 * spec_a (1 / \<theta>))
          = spec_b \<theta> p1 p2 \<delta> / (3 * spec_a \<theta>) + \<delta>"
    unfolding swap_coeffs [OF a(2)] by (rule shift_shift_scale [OF a])
  then show ?thesis
    by (simp add: spec_p1_null_def spec_p2_null_def spec_w_def swap_u [OF assms]
        swap_v [OF assms])
qed

lemma swap_p2_null:
  assumes "0 < \<theta>"
  shows "spec_p2_null (1 / \<theta>) p2 p1 (- \<delta>) = spec_p1_null \<theta> p1 p2 \<delta>"
  by (simp add: spec_p2_null_def [of "1 / \<theta>"] swap_p1_null [OF assms] spec_p2_null_def)

lemma get_sd_swap_finite:
  assumes "n1 \<noteq> 0" "n2 \<noteq> 0"
  shows "get_sd_diff_ML_null n2 n1 (Fin p2) (Fin p1) (Fin (- \<delta>))
         = get_sd_diff_ML_null n1 n2 (Fin p1) (Fin p2) (Fin \<delta>)"
proof -
  define \<theta> where "\<theta> = spec_theta n1 n2"
  have \<theta>: "0 < \<theta>" using assms by (simp add: \<theta>_def spec_theta_def)
  have \<theta>': "spec_theta n2 n1 = 1 / \<theta>" by (simp add: \<theta>_def spec_theta_def)
  show ?thesis
    unfolding get_sd_finite [OF assms] get_sd_finite [OF assms(2,1)] Let_def \<theta>' \<theta>_def [symmetric]
      swap_disc [OF \<theta>] swap_v [OF \<theta>] swap_u [OF \<theta>] swap_p1_null [OF \<theta>] swap_p2_null [OF \<theta>]
    by (simp add: add.commute)
qed

lemma get_sd_nonfinite:
  assumes "n1 \<noteq> 0" "\<not> is_fin delta"
  shows "get_sd_diff_ML_null n1 n2 (Fin p1) (Fin p2) delta = Inr NaN"
proof -
  define \<theta> where "\<theta> = real n2 / real n1"
  have \<theta>: "0 \<le> \<theta>" by (simp add: \<theta>_def)
  then have a: "0 < 1 + \<theta>" "0 < \<theta> + 2" "0 < (1 + \<theta>) ^ 3" "0 < (1 + \<theta>)\<^sup>2" by simp_all
  from assms(2) consider "delta = NaN" | "delta = PInf" | "delta = NInf" by (cases delta) auto
  then show ?thesis
  proof cases
    case 1
    then show ?thesis using assms(1)
      by (simp add: get_sd_diff_ML_null_def int_truediv_def Let_def eval_nat_numeral)
  next
    case 2
    then show ?thesis using assms(1) a
      unfolding get_sd_diff_ML_null_def int_truediv_def Let_def \<theta>_def [symmetric]
      by (simp add: eval_nat_numeral pyfloat_ops \<theta>_def [symmetric] sgn_if)
  next
    case 3
    then show ?thesis using assms(1) a
      unfolding get_sd_diff_ML_null_def int_truediv_def Let_def \<theta>_def [symmetric]
      by (simp add: eval_nat_numeral pyfloat_ops \<theta>_def [symmetric] sgn_if)
  qed
qed

lemma fdiv_uminus: "(- a) / b = - (a / b)" for a b :: pyfloat
  by (cases a; cases b) (auto simp: pyfloat_ops sgn_if)

lemma fsub_uminus: "Fin (- x) - (- d) = - (Fin x - d)"
  by (cases d) (simp_all add: pyfloat_ops)

lemma norm_sf_uminus: "norm_sf (- z) = norm_cdf z"
  by (cases z) (simp_all add: pyfloat_ops std_normal_cdf_minus)

lemma norm_cdf_uminus: "norm_cdf (- z) = norm_sf z"
  by (cases z) (simp_all add: pyfloat_ops std_normal_cdf_minus)

lemma py_min_tails_commute: "py_min (norm_cdf z) (norm_sf z) = py_min (norm_sf z) (norm_cdf z)"
  by (cases z) (simp_all add: py_min_def min.commute)

lemma get_sd_swap:
  assumes "n1 \<noteq> 0" "n2 \<noteq> 0"
  shows "get_sd_diff_ML_null n2 n1 (Fin p2) (Fin p1) (- delta)
         = get_sd_diff_ML_null n1 n2 (Fin p1) (Fin p2) delta"
proof (cases delta)
  case (Fin d)
  then show ?thesis using get_sd_swap_finite [OF assms, of p2 p1 d] by simp
next
  case PInf
  then show ?thesis using assms by (simp add: get_sd_nonfinite uminus_pyfloat_def)
next
  case NInf
  then show ?thesis using assms by (simp add: get_sd_nonfinite uminus_pyfloat_def)
next
  case NaN
  then show ?thesis using assms by (simp add: get_sd_nonfinite)
qed

lemma get_sd_Inr_nonempty:
  assumes "get_sd_diff_ML_null n1 n2 p1 p2 delta = Inr sd"
  shows "n1 \<noteq> 0"
proof
  assume "n1 = 0"
  with assms show False by (simp add: get_sd_empty_first)
qed

text \<open>
  Claim C10.  When the call with \<open>group1\<close>, \<open>group2\<close> and \<open>delta\<close> and the call with the
  groups exchanged and \<open>- delta\<close> both return a result, the second rate difference and
  the second statistic are the negations of the first, and for the alternative
  \<open>two-sided\<close> the two p-values are equal.  The root finders and the levels of the two
  calls may differ.  Arithmetic on finite values is exact here: rounding is not modelled.
\<close>

theorem C10_swap_symmetry:
  assumes "farrington_manning brentq1 group1 group2 delta alternative alpha1 = Inr r"
    and "farrington_manning brentq2 group2 group1 (- delta) alternative alpha2 = Inr r'"
  shows "rate_difference r' = - rate_difference r
         \<and> z_statistic r' = - z_statistic r
         \<and> (casefold alternative = ''two-sided'' \<longrightarrow> p_value r' = p_value r)"
proof -
  define m1 where "m1 = np_mean (map int_of_val group1)"
  define m2 where "m2 = np_mean (map int_of_val group2)"
  from fm_Inr_D [OF assms(1)] obtain sd lo hi where
    sd: "get_sd_diff_ML_null (length group1) (length group2) m1 m2 delta = Inr sd"
    and r: "r = \<lparr>rate_difference = m1 - m2,
        z_statistic = get_z (m1 - m2) delta sd,
        p_value =
          (if casefold alternative = ''two-sided''
           then Fin 2 * py_min (norm_sf (get_z (m1 - m2) delta sd))
                  (norm_cdf (get_z (m1 - m2) delta sd))
           else if casefold alternative = ''greater''
           then norm_sf (get_z (m1 - m2) delta sd)
           else norm_cdf (get_z (m1 - m2) delta sd)),
        ci = [lo, hi]\<rparr>"
    unfolding m1_def m2_def by blast
  from fm_Inr_D [OF assms(2)] obtain sd' lo' hi' where
    sd': "get_sd_diff_ML_null (length group2) (length group1) m2 m1 (- delta) = Inr sd'"
    and r': "r' = \<lparr>rate_difference = m2 - m1,
        z_statistic = get_z (m2 - m1) (- delta) sd',
        p_value =
          (if casefold alternative = ''two-sided''
           then Fin 2 * py_min (norm_sf (get_z (m2 - m1) (- delta) sd'))
                  (norm_cdf (get_z (m2 - m1) (- delta) sd'))
           else if casefold alternative = ''greater''
           then norm_sf (get_z (m2 - m1) (- delta) sd')
           else norm_cdf (get_z (m2 - m1) (- delta) sd')),
        ci = [lo', hi']\<rparr>"
    unfolding m1_def m2_def by blast
  have n1: "length group1 \<noteq> 0" using sd by (rule get_sd_Inr_nonempty)
  have n2: "length group2 \<noteq> 0" using sd' by (rule get_sd_Inr_nonempty)
  from n1 obtain p1 where p1: "m1 = Fin p1" by (simp add: m1_def np_mean_def)
  from n2 obtain p2 where p2: "m2 = Fin p2" by (simp add: m2_def np_mean_def)
  have "sd' = sd"
    using sd sd' get_sd_swap [OF n1 n2, of p2 p1 delta] by (simp add: p1 p2)
  have d: "m2 - m1 = - (m1 - m2)" by (simp add: p1 p2)
  have z: "get_z (m2 - m1) (- delta) sd' = - get_z (m1 - m2) delta sd"
    unfolding get_z_def \<open>sd' = sd\<close> p1 p2
    using fsub_uminus [of "p1 - p2" delta] by (simp add: fdiv_uminus)
  have "rate_difference r' = - rate_difference r" unfolding r r' by (simp add: d)
  moreover have "z_statistic r' = - z_statistic r" unfolding r r' by (simp add: z)
  moreover have "p_value r' = p_value r" if "casefold alternative = ''two-sided''"
    unfolding r r' using that
    by (simp add: z norm_sf_uminus norm_cdf_uminus py_min_tails_commute)
  ultimately show ?thesis by blast
qed

lemma mean_TFF: "np_mean (map int_of_val [True, False, False]) = Fin (1 / 3)"
  by (simp add: np_mean_def int_of_val_def)

lemma mean_FFF: "np_mean (map int_of_val [False, False, False]) = Fin 0"
  by (simp add: np_mean_def int_of_val_def)

lemma example_sd_lists:
  "get_sd_diff_ML_null (length [True, False, False]) (length [False, False, False])
     (Fin (1 / 3)) (Fin 0) (Fin 0) = Inr (Fin (sqrt (5 / 54)))"
  by (simp add: example_sd [unfolded numeral_3_eq_3])

lemma example_sd_swapped:
  "get_sd_diff_ML_null (length [False, False, False]) (length [True, False, False])
     (Fin 0) (Fin (1 / 3)) (Fin 0) = Inr (Fin (sqrt (5 / 54)))"
  using get_sd_swap_finite [of 3 3 0 "1 / 3" 0] example_sd
  by (simp add: numeral_3_eq_3)

lemma example_far:
  "2 * (sqrt (5 / 54))\<^sup>2 \<le> (1 / 3 - 0 - (- 1 + 1 / 10 ^ 6))\<^sup>2"
  "2 * (sqrt (5 / 54))\<^sup>2 \<le> (1 / 3 - 0 - (1 - 1 / 10 ^ 6))\<^sup>2"
  "2 * (sqrt (5 / 54))\<^sup>2 \<le> (0 - 1 / 3 - (- 1 + 1 / 10 ^ 6))\<^sup>2"
  "2 * (sqrt (5 / 54))\<^sup>2 \<le> (0 - 1 / 3 - (1 - 1 / 10 ^ 6))\<^sup>2"
  by (simp_all add: power2_eq_square)

lemma run_greater:
  "farrington_manning midpoint_finder [True, False, False] [False, False, False] (Fin 0)
     ''greater'' (Fin (1 / 5))
   = Inr \<lparr>rate_difference = Fin (1 / 3),
          z_statistic = Fin ((1 / 3) / sqrt (5 / 54)),
          p_value = Fin (1 - std_normal_cdf ((1 / 3) / sqrt (5 / 54))),
          ci = [Fin (- (1999997 / 6000000)), Fin (3999997 / 6000000)]\<rparr>"
proof -
  have alt: "casefold ''greater'' \<in> set [''two-sided'', ''greater'', ''less'']"
    by (simp add: casefold_greater)
  have a: "(if casefold ''greater'' = ''two-sided'' then Fin (1 / 5) else Fin 2 * Fin (1 / 5))
            = Fin (2 / 5)"
    by (simp add: casefold_greater)
  from fm_run [OF alt mean_TFF mean_FFF example_sd_lists _ a _ _ example_far(1,2)]
  show ?thesis by (simp add: casefold_greater)
qed

lemma run_two_sided:
  "farrington_manning midpoint_finder [True, False, False] [False, False, False] (Fin 0)
     ''two-sided'' (Fin (2 / 5))
   = Inr \<lparr>rate_difference = Fin (1 / 3),
          z_statistic = Fin ((1 / 3) / sqrt (5 / 54)),
          p_value = Fin (2 * min (1 - std_normal_cdf ((1 / 3) / sqrt (5 / 54)))
                                 (std_normal_cdf ((1 / 3) / sqrt (5 / 54)))),
          ci = [Fin (- (1999997 / 6000000)), Fin (3999997 / 6000000)]\<rparr>"
proof -
  have alt: "casefold ''two-sided'' \<in> set [''two-sided'', ''greater'', ''less'']"
    by (simp add: casefold_two_sided)
  have a: "(if casefold ''two-sided'' = ''two-sided'' then Fin (2 / 5) else Fin 2 * Fin (2 / 5))
            = Fin (2 / 5)"
    by (simp add: casefold_two_sided)
  from fm_run [OF alt mean_TFF mean_FFF example_sd_lists _ a _ _ example_far(1,2)]
  show ?thesis by (simp add: casefold_two_sided)
qed

lemma run_two_sided_swapped:
  "farrington_manning midpoint_finder [False, False, False] [True, False, False] (- Fin 0)
     ''two-sided'' (Fin (2 / 5))
   = Inr \<lparr>rate_difference = Fin (- (1 / 3)),
          z_statistic = Fin (- (1 / 3) / sqrt (5 / 54)),
          p_value = Fin (2 * min (1 - std_normal_cdf (- (1 / 3) / sqrt (5 / 54)))
                                 (std_normal_cdf (- (1 / 3) / sqrt (5 / 54)))),
          ci = [Fin (- (3999997 / 6000000)), Fin (1999997 / 6000000)]\<rparr>"
proof -
  have alt: "casefold ''two-sided'' \<in> set [''two-sided'', ''greater'', ''less'']"
    by (simp add: casefold_two_sided)
  have a: "(if casefold ''two-sided'' = ''two-sided'' then Fin (2 / 5) else Fin 2 * Fin (2 / 5))
            = Fin (2 / 5)"
    by (simp add: casefold_two_sided)
  from fm_run [OF alt mean_FFF mean_TFF example_sd_swapped _ a _ _ example_far(3,4)]
  show ?thesis by (simp add: casefold_two_sided)
qed

theorem C7_witness:
  "farrington_manning midpoint_finder [True, False, False] [False, False, False] (Fin 0)
     ''greater'' (Fin (1 / 5))
   = Inr \<lparr>rate_difference = Fin (1 / 3),
          z_statistic = Fin ((1 / 3) / sqrt (5 / 54)),
          p_value = Fin (1 - std_normal_cdf ((1 / 3) / sqrt (5 / 54))),
          ci = [Fin (- (1999997 / 6000000)), Fin (3999997 / 6000000)]\<rparr>
   \<and> (\<exists>sd. get_sd_diff_ML_null 3 3 (Fin (1 / 3)) (Fin 0) (Fin 0) = Inr sd
         \<and> Fin ((1 / 3) / sqrt (5 / 54)) = (Fin (1 / 3) - Fin 0) / sd)
   \<and> casefold ''greater'' = ''greater''
   \<and> Fin (1 - std_normal_cdf ((1 / 3) / sqrt (5 / 54)))
       = norm_sf (Fin ((1 / 3) / sqrt (5 / 54)))"
proof -
  note t = C7_statistic_and_p_value [OF run_greater, unfolded mean_TFF mean_FFF]
  from t run_greater show ?thesis
    by (simp add: casefold_greater numeral_3_eq_3)
qed

theorem C10_witness:
  "farrington_manning midpoint_finder [True, False, False] [False, False, False] (Fin 0)
     ''two-sided'' (Fin (2 / 5))
   = Inr \<lparr>rate_difference = Fin (1 / 3),
          z_statistic = Fin ((1 / 3) / sqrt (5 / 54)),
          p_value = Fin (2 * min (1 - std_normal_cdf ((1 / 3) / sqrt (5 / 54)))
                                 (std_normal_cdf ((1 / 3) / sqrt (5 / 54)))),
          ci = [Fin (- (1999997 / 6000000)), Fin (3999997 / 6000000)]\<rparr>
   \<and> farrington_manning midpoint_finder [False, False, False] [True, False, False] (- Fin 0)
     ''two-sided'' (Fin (2 / 5))
   = Inr \<lparr>rate_difference = Fin (- (1 / 3)),
          z_statistic = Fin (- (1 / 3) / sqrt (5 / 54)),
          p_value = Fin (2 * min (1 - std_normal_cdf (- (1 / 3) / sqrt (5 / 54)))
                                 (std_normal_cdf (- (1 / 3) / sqrt (5 / 54)))),
          ci = [Fin (- (3999997 / 6000000)), Fin (1999997 / 6000000)]\<rparr>
   \<and> Fin (- (1 / 3)) = - Fin (1 / 3)
   \<and> Fin (- (1 / 3) / sqrt (5 / 54)) = - Fin ((1 / 3) / sqrt (5 / 54))
   \<and> casefold ''two-sided'' = ''two-sided''
   \<and> Fin (2 * min (1 - std_normal_cdf (- (1 / 3) / sqrt (5 / 54)))
                  (std_normal_cdf (- (1 / 3) / sqrt (5 / 54))))
       = Fin (2 * min (1 - std_normal_cdf ((1 / 3) / sqrt (5 / 54)))
                      (std_normal_cdf ((1 / 3) / sqrt (5 / 54))))"
  using C10_swap_symmetry [OF run_two_sided run_two_sided_swapped]
    run_two_sided run_two_sided_swapped
  by (simp add: casefold_two_sided)

section \<open>Bounds of the confidence interval\<close>

lemma sqrt2_le: "sqrt 2 \<le> 5 / 3"
  by (rule real_le_lsqrt) (simp_all add: power2_eq_square)

lemma near_zero_upper:
  assumes "0 < t" "t \<le> 1"
  shows "std_normal_cdf (- t) < 1 / 2 - t / 4"
proof -
  define K where "K = sqrt (2 * pi)"
  define h where "h = t - t ^ 3 / 6"
  have K: "0 < K" "K < 2 * sqrt 2" using sqrt_2pi_bounds(2) by (simp_all add: K_def)
  have "t * t \<le> 1" using assms by (intro mult_le_one) simp_all
  then have "t * (t * t) \<le> t * 1" using assms(1) by (intro mult_left_mono) simp_all
  then have "t ^ 3 \<le> t" by (simp add: power3_eq_cube mult.assoc)
  then have h: "5 * t / 6 \<le> h" by (simp add: h_def)
  then have hpos: "0 < h" using assms(1) by linarith
  have "1 / 2 + h / K \<le> std_normal_cdf t"
    unfolding h_def K_def using assms(1) by (intro std_normal_cdf_lower) simp
  moreover have "h / (2 * sqrt 2) < h / K"
    using K hpos by (intro divide_strict_left_mono mult_pos_pos) simp_all
  moreover have "t / 4 \<le> h / (2 * sqrt 2)"
  proof -
    have "t / 4 = (5 * t / 6) / (10 / 3)" by simp
    also have "\<dots> \<le> (5 * t / 6) / (2 * sqrt 2)"
      using sqrt2_le assms(1) by (intro divide_left_mono mult_pos_pos) simp_all
    also have "\<dots> \<le> h / (2 * sqrt 2)"
      using h by (intro divide_right_mono) simp_all
    finally show ?thesis .
  qed
  ultimately have "1 / 2 + t / 4 < std_normal_cdf t" by linarith
  then show ?thesis by (simp add: std_normal_cdf_minus)
qed

lemma near_zero_lower:
  assumes "0 \<le> t"
  shows "1 / 2 - t / 2 \<le> std_normal_cdf (- t)"
proof -
  have "std_normal_cdf t \<le> 1 / 2 + t / sqrt (2 * pi)"
    using assms by (rule std_normal_cdf_upper)
  moreover have "t / sqrt (2 * pi) \<le> t / 2"
    using assms sqrt_2pi_bounds(1) by (intro divide_left_mono) simp_all
  ultimately have "std_normal_cdf t \<le> 1 / 2 + t / 2" by linarith
  then show ?thesis by (simp add: std_normal_cdf_minus)
qed

lemma midpoint_finder_near_same_sign:
  assumes s: "0 < s" and t: "\<bar>d - x\<bar> / s < 1 - a"
  shows "midpoint_finder (\<lambda>t. get_ci t (Fin d) (Fin s) (Fin a)) (Fin x) (Fin d) = Inl sign_error"
    and "midpoint_finder (\<lambda>t. get_ci t (Fin d) (Fin s) (Fin a)) (Fin d) (Fin x) = Inl sign_error"
proof -
  let ?f = "\<lambda>t. get_ci t (Fin d) (Fin s) (Fin a)"
  have s0: "s \<noteq> 0" using s by simp
  have t0: "0 \<le> \<bar>d - x\<bar> / s" using s by simp
  have fd: "?f (Fin d) = Fin (1 - a)"
    by (simp add: get_ci_Fin [OF s0] std_normal_cdf_0)
  have fx: "?f (Fin x) = Fin (2 * std_normal_cdf (- (\<bar>d - x\<bar> / s)) - a)"
    using s by (simp add: get_ci_Fin [OF s0])
  define \<tau> where "\<tau> = \<bar>d - x\<bar> / s"
  have p1: "0 < 1 - a" using t t0 by linarith
  have "1 / 2 - \<tau> / 2 \<le> std_normal_cdf (- \<tau>)"
    using t0 unfolding \<tau>_def by (rule near_zero_lower)
  moreover have "\<tau> < 1 - a" using t by (simp add: \<tau>_def)
  ultimately have "0 < 2 * std_normal_cdf (- \<tau>) - a" by linarith
  then have p2: "0 < 2 * std_normal_cdf (- (\<bar>d - x\<bar> / s)) - a" by (simp add: \<tau>_def)
  have 1: "0 < (2 * std_normal_cdf (- (\<bar>d - x\<bar> / s)) - a) * (1 - a)"
    using p2 p1 by (rule mult_pos_pos)
  have 2: "0 < (1 - a) * (2 * std_normal_cdf (- (\<bar>d - x\<bar> / s)) - a)"
    using p1 p2 by (rule mult_pos_pos)
  show "midpoint_finder ?f (Fin x) (Fin d) = Inl sign_error"
    using fx fd 1 by (rule midpoint_finder_same_sign)
  show "midpoint_finder ?f (Fin d) (Fin x) = Inl sign_error"
    using fd fx 2 by (rule midpoint_finder_same_sign)
qed

lemma midpoint_finder_near_sign_change:
  assumes s: "0 < s" and t: "0 < \<bar>d - x\<bar> / s" "\<bar>d - x\<bar> / s \<le> 1"
    and a: "1 - (\<bar>d - x\<bar> / s) / 2 \<le> a" "a < 1"
  shows "midpoint_finder (\<lambda>t. get_ci t (Fin d) (Fin s) (Fin a)) (Fin x) (Fin d)
         = Inr (Fin ((x + d) / 2))"
proof -
  let ?f = "\<lambda>t. get_ci t (Fin d) (Fin s) (Fin a)"
  have s0: "s \<noteq> 0" using s by simp
  have fd: "?f (Fin d) = Fin (1 - a)"
    by (simp add: get_ci_Fin [OF s0] std_normal_cdf_0)
  have fx: "?f (Fin x) = Fin (2 * std_normal_cdf (- (\<bar>d - x\<bar> / s)) - a)"
    using s by (simp add: get_ci_Fin [OF s0])
  have p1: "0 < 1 - a" using a by simp
  define \<tau> where "\<tau> = \<bar>d - x\<bar> / s"
  have "std_normal_cdf (- \<tau>) < 1 / 2 - \<tau> / 4"
    using t unfolding \<tau>_def by (rule near_zero_upper)
  moreover have "1 - \<tau> / 2 \<le> a" using a(1) by (simp add: \<tau>_def)
  ultimately have "2 * std_normal_cdf (- \<tau>) - a < 0" by linarith
  then have p2: "2 * std_normal_cdf (- (\<bar>d - x\<bar> / s)) - a < 0" by (simp add: \<tau>_def)
  have "(2 * std_normal_cdf (- (\<bar>d - x\<bar> / s)) - a) * (1 - a) < 0"
    using p2 p1 by (rule mult_neg_pos)
  with fx fd show ?thesis by (rule midpoint_finder_sign_change)
qed

lemma mean_F: "np_mean (map int_of_val [False]) = Fin 0"
  by (simp add: np_mean_def int_of_val_def)

lemma mean_T: "np_mean (map int_of_val [True]) = Fin 1"
  by (simp add: np_mean_def int_of_val_def)

lemma mean_TTT: "np_mean (map int_of_val [True, True, True]) = Fin 1"
  by (simp add: np_mean_def int_of_val_def)

lemma sqrt_quarter: "sqrt (1 / 4) = 1 / 2"
  by (rule real_sqrt_unique) (simp_all add: power2_eq_square)

lemma sd_F_TTT:
  "get_sd_diff_ML_null (length [False]) (length [True, True, True]) (Fin 0) (Fin 1) (Fin 0)
   = Inr (Fin (1 / 2))"
proof -
  have "get_sd_diff_ML_null 1 3 (Fin 0) (Fin 1) (Fin 0)
         = Inr (Fin (sqrt ((3/4) * (1 - 3/4) / real 1 + (3/4 - 0) * (1 - (3/4 - 0)) / real 3)))"
    by (rule get_sd_eval)
      (simp_all add: spec_theta_def spec_a_def spec_b_def spec_c_def spec_d_def spec_v_def
        spec_disc_def Let_def power2_eq_square power3_eq_cube)
  then show ?thesis by (simp add: sqrt_quarter numeral_3_eq_3)
qed

lemma sd_T_FFF:
  "get_sd_diff_ML_null (length [True]) (length [False, False, False]) (Fin 1) (Fin 0) (Fin 0)
   = Inr (Fin (1 / 2))"
proof -
  have "get_sd_diff_ML_null 1 3 (Fin 1) (Fin 0) (Fin 0)
         = Inr (Fin (sqrt ((1/4) * (1 - 1/4) / real 1 + (1/4 - 0) * (1 - (1/4 - 0)) / real 3)))"
    by (rule get_sd_eval)
      (simp_all add: spec_theta_def spec_a_def spec_b_def spec_c_def spec_d_def spec_v_def
        spec_disc_def Let_def power2_eq_square power3_eq_cube)
  then show ?thesis by (simp add: sqrt_quarter numeral_3_eq_3)
qed

text \<open>
  Claim C9, as amended.  The root finder is asked for the lower bound between
  \<open>-1 + 1e-6\<close> and \<open>diff_ml\<close> and for the upper bound between \<open>diff_ml\<close> and
  \<open>1 - 1e-6\<close>, and a root it returns lies between the two ends it was given, in whichever
  order they come.  So whenever a result is returned and the observed rate difference lies
  between \<open>-1 + 1e-6\<close> and \<open>1 - 1e-6\<close>, the result holds exactly two bounds and
  \<open>ci_lower \<le> rate_difference \<le> ci_upper\<close>.  When the observed difference is \<open>-1\<close> or
  \<open>1\<close> the ends of one bracket come in reverse order and the bound found there lies on the
  other side of the observed difference.
\<close>

theorem C9_bounds_enclose_rate_difference:
  assumes bq: "in_bracket brentq"
    and run: "farrington_manning brentq group1 group2 delta alternative alpha = Inr r"
    and lo: "fle (Fin (- 1 + 1 / 10 ^ 6)) (rate_difference r)"
    and hi: "fle (rate_difference r) (Fin (1 - 1 / 10 ^ 6))"
  shows "\<exists>ci_lower ci_upper. ci r = [ci_lower, ci_upper]
           \<and> fle ci_lower (rate_difference r) \<and> fle (rate_difference r) ci_upper"
proof -
  define d where "d = np_mean (map int_of_val group1) - np_mean (map int_of_val group2)"
  from fm_Inr_D [OF run] obtain sd l h f where
    l: "brentq f (Fin (- 1) + Fin (1 / 10 ^ 6)) d = Inr l"
    and h: "brentq f d (Fin 1 - Fin (1 / 10 ^ 6)) = Inr h"
    and r: "rate_difference r = d" "ci r = [l, h]"
    unfolding d_def by fastforce
  from bq l have "(fle (Fin (- 1) + Fin (1 / 10 ^ 6)) l \<and> fle l d)
      \<or> (fle d l \<and> fle l (Fin (- 1) + Fin (1 / 10 ^ 6)))"
    unfolding in_bracket_def by blast
  then have 1: "fle l d"
    using lo unfolding r(1) by (auto intro: fle_trans)
  from bq h have "(fle d h \<and> fle h (Fin 1 - Fin (1 / 10 ^ 6)))
      \<or> (fle (Fin 1 - Fin (1 / 10 ^ 6)) h \<and> fle h d)"
    unfolding in_bracket_def by blast
  then have 2: "fle d h"
    using hi unfolding r(1) by (auto intro: fle_trans)
  from 1 2 r show ?thesis by simp
qed

theorem C9_witness:
  "in_bracket midpoint_finder
   \<and> farrington_manning midpoint_finder [True, False, False] [False, False, False] (Fin 0)
       ''greater'' (Fin (1 / 5))
     = Inr \<lparr>rate_difference = Fin (1 / 3),
          z_statistic = Fin ((1 / 3) / sqrt (5 / 54)),
          p_value = Fin (1 - std_normal_cdf ((1 / 3) / sqrt (5 / 54))),
          ci = [Fin (- (1999997 / 6000000)), Fin (3999997 / 6000000)]\<rparr>
   \<and> fle (Fin (- 1 + 1 / 10 ^ 6)) (Fin (1 / 3))
   \<and> fle (Fin (1 / 3)) (Fin (1 - 1 / 10 ^ 6))
   \<and> fle (Fin (- (1999997 / 6000000))) (Fin (1 / 3))
   \<and> fle (Fin (1 / 3)) (Fin (3999997 / 6000000))"
  using C9_bounds_enclose_rate_difference [OF midpoint_finder_in_bracket run_greater]
    midpoint_finder_in_bracket run_greater
  by simp

lemma run_all_failures_first:
  "farrington_manning midpoint_finder [False] [True, True, True] (Fin 0) ''greater''
     (Fin (4999995 / 10 ^ 7))
   = Inr \<lparr>rate_difference = Fin (- 1),
          z_statistic = Fin (- 2),
          p_value = Fin (1 - std_normal_cdf (- 2)),
          ci = [Fin (- (1999999 / 2000000)), Fin (- (1 / 2000000))]\<rparr>"
proof -
  have alt: "casefold ''greater'' \<in> set [''two-sided'', ''greater'', ''less'']"
    by (simp add: casefold_greater)
  have s: "(0 :: real) < 1 / 2" by simp
  have l: "midpoint_finder (\<lambda>t. get_ci t (Fin (- 1)) (Fin (1 / 2)) (Fin (999999 / 10 ^ 6)))
             (Fin (- 1 + 1 / 10 ^ 6)) (Fin (- 1)) = Inr (Fin ((- 1 + 1 / 10 ^ 6 + - 1) / 2))"
    by (rule midpoint_finder_near_sign_change) simp_all
  have h: "midpoint_finder (\<lambda>t. get_ci t (Fin (- 1)) (Fin (1 / 2)) (Fin (999999 / 10 ^ 6)))
             (Fin (- 1)) (Fin (1 - 1 / 10 ^ 6)) = Inr (Fin ((- 1 + (1 - 1 / 10 ^ 6)) / 2))"
    by (rule midpoint_finder_ci(2)) (simp_all add: power2_eq_square)
  show ?thesis
    unfolding fm_valid_unfold [OF alt] Let_def mean_F mean_TTT Fin_minus sd_F_TTT
    using l h by (simp add: casefold_greater get_z_def)
qed

theorem C9_counterexample:
  "in_bracket midpoint_finder
   \<and> farrington_manning midpoint_finder [False] [True, True, True] (Fin 0) ''greater''
       (Fin (4999995 / 10 ^ 7))
     = Inr \<lparr>rate_difference = Fin (- 1),
          z_statistic = Fin (- 2),
          p_value = Fin (1 - std_normal_cdf (- 2)),
          ci = [Fin (- (1999999 / 2000000)), Fin (- (1 / 2000000))]\<rparr>
   \<and> \<not> fle (Fin (- (1999999 / 2000000))) (Fin (- 1))"
  using midpoint_finder_in_bracket run_all_failures_first by simp

section \<open>Failures of the root search\<close>

lemma midpoint_finder_rejects_same_sign: "rejects_same_sign midpoint_finder"
  unfolding rejects_same_sign_def
proof (intro allI impI)
  fix f :: "pyfloat \<Rightarrow> pyfloat" and a b :: pyfloat and x y :: real
  assume *: "f a = Fin x \<and> f b = Fin y \<and> 0 < x * y"
  then have "x \<noteq> 0" "y \<noteq> 0" by auto
  with * show "\<exists>e. midpoint_finder f a b = Inl e"
    by (auto simp: midpoint_finder_def Let_def)
qed

text \<open>
  Claim C5, as amended.  The entry point does not catch what the root finder raises.  An
  error of the search for the lower bound is the outcome of the call, and the upper bound is
  not searched; an error of the search for the upper bound, after the lower bound was found,
  is the outcome of the call.  In both cases no result is returned.  With a root finder that
  raises when the target has the same sign at both ends of its bracket, a target without
  a change of sign over either bracket makes the call fail.  The error is the root
  finder's own: nothing is added to it, so it does not tell which of the two bounds failed.
\<close>

theorem C5_root_finder_error_surfaced:
  fixes brentq :: root_finder and alpha :: pyfloat and delta :: pyfloat
    and group1 group2 :: "bool list" and alternative :: string
  assumes alt: "casefold alternative \<in> set [''two-sided'', ''greater'', ''less'']"
    and sd: "get_sd_diff_ML_null (length group1) (length group2)
               (np_mean (map int_of_val group1)) (np_mean (map int_of_val group2)) delta
             = Inr sd"
  defines "diff_ml \<equiv> np_mean (map int_of_val group1) - np_mean (map int_of_val group2)"
  defines "target \<equiv> (\<lambda>x. get_ci x diff_ml sd
                        (if casefold alternative = ''two-sided'' then alpha else Fin 2 * alpha))"
  shows "(brentq target (Fin (- 1) + Fin (1 / 10 ^ 6)) diff_ml = Inl e
            \<longrightarrow> farrington_manning brentq group1 group2 delta alternative alpha = Inl e)
       \<and> (brentq target (Fin (- 1) + Fin (1 / 10 ^ 6)) diff_ml = Inr ci_lower
            \<and> brentq target diff_ml (Fin 1 - Fin (1 / 10 ^ 6)) = Inl e
            \<longrightarrow> farrington_manning brentq group1 group2 delta alternative alpha = Inl e)
       \<and> (rejects_same_sign brentq
            \<and> ((target (Fin (- 1) + Fin (1 / 10 ^ 6)) = Fin x \<and> target diff_ml = Fin y
                  \<and> 0 < x * y)
               \<or> (target diff_ml = Fin x \<and> target (Fin 1 - Fin (1 / 10 ^ 6)) = Fin y
                  \<and> 0 < x * y))
            \<longrightarrow> (\<exists>e'. farrington_manning brentq group1 group2 delta alternative alpha
                        = Inl e'))"
proof -
  note u = fm_valid_unfold [OF alt, of brentq group1 group2 delta alpha, unfolded Let_def sd
      py_bind_Inr, folded diff_ml_def, folded target_def]
  have 1: "farrington_manning brentq group1 group2 delta alternative alpha = Inl e"
    if "brentq target (Fin (- 1) + Fin (1 / 10 ^ 6)) diff_ml = Inl e" for e
    unfolding u that by simp
  have 2: "farrington_manning brentq group1 group2 delta alternative alpha = Inl e"
    if "brentq target (Fin (- 1) + Fin (1 / 10 ^ 6)) diff_ml = Inr l"
      "brentq target diff_ml (Fin 1 - Fin (1 / 10 ^ 6)) = Inl e" for e l
    unfolding u that by simp
  have 3: "\<exists>e'. farrington_manning brentq group1 group2 delta alternative alpha = Inl e'"
    if r: "rejects_same_sign brentq"
      and s: "(target (Fin (- 1) + Fin (1 / 10 ^ 6)) = Fin x \<and> target diff_ml = Fin y
                  \<and> 0 < x * y)
               \<or> (target diff_ml = Fin x \<and> target (Fin 1 - Fin (1 / 10 ^ 6)) = Fin y
                  \<and> 0 < x * y)"
  proof (cases "brentq target (Fin (- 1) + Fin (1 / 10 ^ 6)) diff_ml")
    case (Inl e')
    from 1 [OF this] show ?thesis by blast
  next
    case (Inr l)
    with r s have "target diff_ml = Fin x \<and> target (Fin 1 - Fin (1 / 10 ^ 6)) = Fin y
                  \<and> 0 < x * y"
      unfolding rejects_same_sign_def by (metis sum.distinct(1))
    with r obtain e' where "brentq target diff_ml (Fin 1 - Fin (1 / 10 ^ 6)) = Inl e'"
      unfolding rejects_same_sign_def by blast
    from 2 [OF Inr this] show ?thesis by blast
  qed
  from 1 2 3 show ?thesis by blast
qed

lemma run_lower_fails:
  "midpoint_finder (\<lambda>t. get_ci t (Fin (- 1)) (Fin (1 / 2)) (Fin (2 / 5)))
     (Fin (- 1 + 1 / 10 ^ 6)) (Fin (- 1)) = Inl sign_error"
  "farrington_manning midpoint_finder [False] [True, True, True] (Fin 0) ''greater''
     (Fin (1 / 5)) = Inl sign_error"
proof -
  have alt: "casefold ''greater'' \<in> set [''two-sided'', ''greater'', ''less'']"
    by (simp add: casefold_greater)
  show l: "midpoint_finder (\<lambda>t. get_ci t (Fin (- 1)) (Fin (1 / 2)) (Fin (2 / 5)))
             (Fin (- 1 + 1 / 10 ^ 6)) (Fin (- 1)) = Inl sign_error"
    by (rule midpoint_finder_near_same_sign(1)) simp_all
  show "farrington_manning midpoint_finder [False] [True, True, True] (Fin 0) ''greater''
     (Fin (1 / 5)) = Inl sign_error"
    unfolding fm_valid_unfold [OF alt] Let_def mean_F mean_TTT Fin_minus sd_F_TTT
    using l by (simp add: casefold_greater)
qed

lemma run_upper_fails:
  "midpoint_finder (\<lambda>t. get_ci t (Fin 1) (Fin (1 / 2)) (Fin (2 / 5)))
     (Fin (- 1 + 1 / 10 ^ 6)) (Fin 1) = Inr (Fin (1 / (2 * 10 ^ 6)))"
  "midpoint_finder (\<lambda>t. get_ci t (Fin 1) (Fin (1 / 2)) (Fin (2 / 5)))
     (Fin 1) (Fin (1 - 1 / 10 ^ 6)) = Inl sign_error"
  "farrington_manning midpoint_finder [True] [False, False, False] (Fin 0) ''greater''
     (Fin (1 / 5)) = Inl sign_error"
proof -
  have alt: "casefold ''greater'' \<in> set [''two-sided'', ''greater'', ''less'']"
    by (simp add: casefold_greater)
  have "midpoint_finder (\<lambda>t. get_ci t (Fin 1) (Fin (1 / 2)) (Fin (2 / 5)))
             (Fin (- 1 + 1 / 10 ^ 6)) (Fin 1) = Inr (Fin ((- 1 + 1 / 10 ^ 6 + 1) / 2))"
    by (rule midpoint_finder_ci(1)) (simp_all add: power2_eq_square)
  then show l: "midpoint_finder (\<lambda>t. get_ci t (Fin 1) (Fin (1 / 2)) (Fin (2 / 5)))
             (Fin (- 1 + 1 / 10 ^ 6)) (Fin 1) = Inr (Fin (1 / (2 * 10 ^ 6)))"
    by simp
  show h: "midpoint_finder (\<lambda>t. get_ci t (Fin 1) (Fin (1 / 2)) (Fin (2 / 5)))
             (Fin 1) (Fin (1 - 1 / 10 ^ 6)) = Inl sign_error"
    by (rule midpoint_finder_near_same_sign(2)) simp_all
  show "farrington_manning midpoint_finder [True] [False, False, False] (Fin 0) ''greater''
     (Fin (1 / 5)) = Inl sign_error"
    unfolding fm_valid_unfold [OF alt] Let_def mean_T mean_FFF Fin_minus sd_T_FFF
    using l h by (simp add: casefold_greater)
qed

theorem C5_counterexample:
  "midpoint_finder (\<lambda>t. get_ci t (Fin (- 1)) (Fin (1 / 2)) (Fin (2 / 5)))
     (Fin (- 1 + 1 / 10 ^ 6)) (Fin (- 1)) = Inl sign_error
   \<and> farrington_manning midpoint_finder [False] [True, True, True] (Fin 0) ''greater''
       (Fin (1 / 5)) = Inl sign_error
   \<and> midpoint_finder (\<lambda>t. get_ci t (Fin 1) (Fin (1 / 2)) (Fin (2 / 5)))
       (Fin (- 1 + 1 / 10 ^ 6)) (Fin 1) = Inr (Fin (1 / (2 * 10 ^ 6)))
   \<and> midpoint_finder (\<lambda>t. get_ci t (Fin 1) (Fin (1 / 2)) (Fin (2 / 5)))
       (Fin 1) (Fin (1 - 1 / 10 ^ 6)) = Inl sign_error
   \<and> farrington_manning midpoint_finder [True] [False, False, False] (Fin 0) ''greater''
       (Fin (1 / 5)) = Inl sign_error"
  using run_lower_fails run_upper_fails by simp

theorem C5_witness:
  "casefold ''greater'' \<in> set [''two-sided'', ''greater'', ''less'']
   \<and> get_sd_diff_ML_null (length [False]) (length [True, True, True])
        (np_mean (map int_of_val [False])) (np_mean (map int_of_val [True, True, True]))
        (Fin 0) = Inr (Fin (1 / 2))
   \<and> midpoint_finder (\<lambda>t. get_ci t (Fin (- 1)) (Fin (1 / 2)) (Fin (2 / 5)))
        (Fin (- 1 + 1 / 10 ^ 6)) (Fin (- 1)) = Inl sign_error
   \<and> farrington_manning midpoint_finder [False] [True, True, True] (Fin 0) ''greater''
        (Fin (1 / 5)) = Inl sign_error
   \<and> get_sd_diff_ML_null (length [True]) (length [False, False, False])
        (np_mean (map int_of_val [True])) (np_mean (map int_of_val [False, False, False]))
        (Fin 0) = Inr (Fin (1 / 2))
   \<and> midpoint_finder (\<lambda>t. get_ci t (Fin 1) (Fin (1 / 2)) (Fin (2 / 5)))
        (Fin (- 1 + 1 / 10 ^ 6)) (Fin 1) = Inr (Fin (1 / (2 * 10 ^ 6)))
   \<and> midpoint_finder (\<lambda>t. get_ci t (Fin 1) (Fin (1 / 2)) (Fin (2 / 5)))
        (Fin 1) (Fin (1 - 1 / 10 ^ 6)) = Inl sign_error
   \<and> rejects_same_sign midpoint_finder
   \<and> get_ci (Fin 1) (Fin 1) (Fin (1 / 2)) (Fin (2 / 5)) = Fin (3 / 5)
   \<and> get_ci (Fin (1 - 1 / 10 ^ 6)) (Fin 1) (Fin (1 / 2)) (Fin (2 / 5))
       = Fin (2 * std_normal_cdf (- (1 / 500000)) - 2 / 5)
   \<and> 0 < 3 / 5 * (2 * std_normal_cdf (- (1 / 500000)) - 2 / 5)
   \<and> (\<exists>e. farrington_manning midpoint_finder [True] [False, False, False] (Fin 0) ''greater''
        (Fin (1 / 5)) = Inl e)
   \<and> farrington_manning midpoint_finder [True] [False, False, False] (Fin 0) ''greater''
        (Fin (1 / 5)) = Inl sign_error"
proof -
  have alt: "casefold ''greater'' \<in> set [''two-sided'', ''greater'', ''less'']"
    by (simp add: casefold_greater)
  have sd1: "get_sd_diff_ML_null (length [False]) (length [True, True, True])
        (np_mean (map int_of_val [False])) (np_mean (map int_of_val [True, True, True]))
        (Fin 0) = Inr (Fin (1 / 2))"
    unfolding mean_F mean_TTT by (rule sd_F_TTT)
  have sd2: "get_sd_diff_ML_null (length [True]) (length [False, False, False])
        (np_mean (map int_of_val [True])) (np_mean (map int_of_val [False, False, False]))
        (Fin 0) = Inr (Fin (1 / 2))"
    unfolding mean_T mean_FFF by (rule sd_T_FFF)
  have fd: "get_ci (Fin 1) (Fin 1) (Fin (1 / 2)) (Fin (2 / 5)) = Fin (3 / 5)"
    by (simp add: get_ci_Fin std_normal_cdf_0)
  have fh: "get_ci (Fin (1 - 1 / 10 ^ 6)) (Fin 1) (Fin (1 / 2)) (Fin (2 / 5))
       = Fin (2 * std_normal_cdf (- (1 / 500000)) - 2 / 5)"
    by (simp add: get_ci_Fin)
  have "1 / 2 - (1 / 500000) / 2 \<le> std_normal_cdf (- (1 / 500000))"
    by (rule near_zero_lower) simp
  then have pos: "0 < 3 / 5 * (2 * std_normal_cdf (- (1 / 500000)) - 2 / 5)" by simp
  note t1 = C5_root_finder_error_surfaced [OF alt sd1, where brentq = midpoint_finder
      and alpha = "Fin (1 / 5)" and e = sign_error,
      unfolded mean_F mean_TTT casefold_greater Fin_minus Fin_plus Fin_times]
  note t2 = C5_root_finder_error_surfaced [OF alt sd2, where brentq = midpoint_finder
      and alpha = "Fin (1 / 5)" and e = sign_error and ci_lower = "Fin (1 / (2 * 10 ^ 6))"
      and x = "3 / 5" and y = "2 * std_normal_cdf (- (1 / 500000)) - 2 / 5",
      unfolded mean_T mean_FFF casefold_greater Fin_minus Fin_plus Fin_times]
  have r1: "farrington_manning midpoint_finder [False] [True, True, True] (Fin 0) ''greater''
        (Fin (1 / 5)) = Inl sign_error"
    using t1 run_lower_fails(1) by simp
  have r2: "farrington_manning midpoint_finder [True] [False, False, False] (Fin 0) ''greater''
        (Fin (1 / 5)) = Inl sign_error"
    using t2 run_upper_fails(1,2) by simp
  have r3: "\<exists>e. farrington_manning midpoint_finder [True] [False, False, False] (Fin 0)
        ''greater'' (Fin (1 / 5)) = Inl e"
    using t2 midpoint_finder_rejects_same_sign fd fh pos by simp
  show ?thesis
    using alt sd1 sd2 run_lower_fails(1) run_upper_fails(1,2) r1 r2 r3
      midpoint_finder_rejects_same_sign fd fh pos
    by simp
qed

section \<open>The standard error inside the root search\<close>

lemma mean_TT: "np_mean (map int_of_val [True, True]) = Fin 1"
  by (simp add: np_mean_def int_of_val_def)

lemma mean_TF: "np_mean (map int_of_val [True, False]) = Fin (1 / 2)"
  by (simp add: np_mean_def int_of_val_def)

lemma sd_at_user_delta:
  "get_sd_diff_ML_null (length [True, True]) (length [True, False]) (Fin 1) (Fin (1 / 2))
     (Fin (1 / 2)) = Inr (Fin (sqrt (1 / 8)))"
proof -
  have "get_sd_diff_ML_null 2 2 (Fin 1) (Fin (1 / 2)) (Fin (1 / 2))
         = Inr (Fin (sqrt (1 * (1 - 1) / real 2 + (1 - 1 / 2) * (1 - (1 - 1 / 2)) / real 2)))"
    by (rule get_sd_eval)
      (simp_all add: spec_theta_def spec_a_def spec_b_def spec_c_def spec_d_def spec_v_def
        spec_disc_def Let_def power2_eq_square power3_eq_cube)
  then show ?thesis by (simp add: numeral_2_eq_2)
qed

lemma sd_at_candidate:
  "get_sd_diff_ML_null (length [True, True]) (length [True, False]) (Fin 1) (Fin (1 / 2))
     (Fin 0) = Inr (Fin (sqrt (3 / 16)))"
proof -
  have "get_sd_diff_ML_null 2 2 (Fin 1) (Fin (1 / 2)) (Fin 0)
         = Inr (Fin (sqrt ((3 / 4) * (1 - 3 / 4) / real 2
                            + (3 / 4 - 0) * (1 - (3 / 4 - 0)) / real 2)))"
    by (rule get_sd_eval)
      (simp_all add: spec_theta_def spec_a_def spec_b_def spec_c_def spec_d_def spec_v_def
        spec_disc_def Let_def power2_eq_square power3_eq_cube)
  then show ?thesis by (simp add: numeral_2_eq_2)
qed

lemma targets_differ:
  "get_ci (Fin 0) (Fin (1 / 2)) (Fin (sqrt (1 / 8))) (Fin (1 / 20))
     \<noteq> get_ci (Fin 0) (Fin (1 / 2)) (Fin (sqrt (3 / 16))) (Fin (1 / 20))"
proof -
  have "sqrt (1 / 8) < sqrt (3 / 16 :: real)" by (rule real_sqrt_less_mono) simp
  then have "(1 / 2) / sqrt (3 / 16) < (1 / 2) / sqrt (1 / 8 :: real)"
    by (intro divide_strict_left_mono mult_pos_pos) simp_all
  then have "- \<bar>(1 / 2 - 0) / sqrt (1 / 8)\<bar> < - \<bar>(1 / 2 - 0) / sqrt (3 / 16 :: real)\<bar>"
    by simp
  then have "std_normal_cdf (- \<bar>(1 / 2 - 0) / sqrt (1 / 8)\<bar>)
               < std_normal_cdf (- \<bar>(1 / 2 - 0) / sqrt (3 / 16)\<bar>)"
    by (rule std_normal_cdf_strict_mono)
  then have "std_normal_cdf (- \<bar>(1 / 2 - 0) / sqrt (1 / 8)\<bar>)
               \<noteq> std_normal_cdf (- \<bar>(1 / 2 - 0) / sqrt (3 / 16)\<bar>)"
    by (rule less_imp_neq)
  then have ne: "2 * std_normal_cdf (- \<bar>(1 / 2 - 0) / sqrt (1 / 8)\<bar>) - 1 / 20
               \<noteq> 2 * std_normal_cdf (- \<bar>(1 / 2 - 0) / sqrt (3 / 16)\<bar>) - 1 / 20"
    by simp
  have a: "get_ci (Fin 0) (Fin (1 / 2)) (Fin (sqrt (1 / 8))) (Fin (1 / 20))
             = Fin (2 * std_normal_cdf (- \<bar>(1 / 2 - 0) / sqrt (1 / 8)\<bar>) - 1 / 20)"
    by (rule get_ci_Fin) simp
  have b: "get_ci (Fin 0) (Fin (1 / 2)) (Fin (sqrt (3 / 16))) (Fin (1 / 20))
             = Fin (2 * std_normal_cdf (- \<bar>(1 / 2 - 0) / sqrt (3 / 16)\<bar>) - 1 / 20)"
    by (rule get_ci_Fin) simp
  show ?thesis unfolding a b using ne by (simp only: pyfloat.inject) simp
qed

text \<open>
  Claim C1.  The claim asks for the standard error to be recomputed by the restricted
  maximum-likelihood solver at every candidate delta of the root search.  The entry point
  computes it once, at the delta of the call, and hands that value to the target as a fixed
  argument.  For the groups \<open>[True, True]\<close> and \<open>[True, False]\<close> with delta 1/2 the target of
  both searches is \<open>_get_ci\<close> with the standard error \<open>sqrt (1/8)\<close> of delta 1/2; at the
  candidate 0 the solver gives \<open>sqrt (3/16)\<close>, and the target with the recomputed standard
  error has another value there than the target the code searches.
\<close>

theorem C1_target_keeps_sd_fixed:
  "farrington_manning brentq [True, True] [True, False] (Fin (1 / 2)) ''two-sided''
     (Fin (1 / 20))
   = py_bind (brentq (\<lambda>x. get_ci x (Fin (1 / 2)) (Fin (sqrt (1 / 8))) (Fin (1 / 20)))
                (Fin (- 1 + 1 / 10 ^ 6)) (Fin (1 / 2)))
       (\<lambda>ci_lower.
          py_bind (brentq (\<lambda>x. get_ci x (Fin (1 / 2)) (Fin (sqrt (1 / 8))) (Fin (1 / 20)))
                     (Fin (1 / 2)) (Fin (1 - 1 / 10 ^ 6)))
            (\<lambda>ci_upper. Inr \<lparr>rate_difference = Fin (1 / 2), z_statistic = Fin 0,
                                p_value = Fin 1, ci = [ci_lower, ci_upper]\<rparr>))
   \<and> get_sd_diff_ML_null (length [True, True]) (length [True, False])
        (np_mean (map int_of_val [True, True])) (np_mean (map int_of_val [True, False]))
        (Fin (1 / 2)) = Inr (Fin (sqrt (1 / 8)))
   \<and> get_sd_diff_ML_null (length [True, True]) (length [True, False])
        (np_mean (map int_of_val [True, True])) (np_mean (map int_of_val [True, False]))
        (Fin 0) = Inr (Fin (sqrt (3 / 16)))
   \<and> get_ci (Fin 0) (Fin (1 / 2)) (Fin (sqrt (1 / 8))) (Fin (1 / 20))
       \<noteq> get_ci (Fin 0) (Fin (1 / 2)) (Fin (sqrt (3 / 16))) (Fin (1 / 20))"
proof -
  have alt: "casefold ''two-sided'' \<in> set [''two-sided'', ''greater'', ''less'']"
    by (simp add: casefold_two_sided)
  have run: "farrington_manning brentq [True, True] [True, False] (Fin (1 / 2)) ''two-sided''
     (Fin (1 / 20))
   = py_bind (brentq (\<lambda>x. get_ci x (Fin (1 / 2)) (Fin (sqrt (1 / 8))) (Fin (1 / 20)))
                (Fin (- 1 + 1 / 10 ^ 6)) (Fin (1 / 2)))
       (\<lambda>ci_lower.
          py_bind (brentq (\<lambda>x. get_ci x (Fin (1 / 2)) (Fin (sqrt (1 / 8))) (Fin (1 / 20)))
                     (Fin (1 / 2)) (Fin (1 - 1 / 10 ^ 6)))
            (\<lambda>ci_upper. Inr \<lparr>rate_difference = Fin (1 / 2), z_statistic = Fin 0,
                                p_value = Fin 1, ci = [ci_lower, ci_upper]\<rparr>))"
    unfolding fm_valid_unfold [OF alt] Let_def mean_TT mean_TF Fin_minus sd_at_user_delta
    by (simp add: casefold_two_sided get_z_def std_normal_cdf_0)
  show ?thesis
    unfolding mean_TT mean_TF
    using run sd_at_user_delta sd_at_candidate targets_differ by simp
qed

end
